theory Spec2Isabelle
  imports Complex_Main "HOL-Library.Word"
begin

section \<open>JavaScript values\<close>

text \<open>
  A JavaScript string is a sequence of UTF-16 code units. ASCII literals of the source are
  written \<open>ascii ''...''\<close>; the few non-ASCII glyphs of the report headers are given by
  their code units.
\<close>

type_synonym jstring = "16 word list"

type_synonym bytes = "8 word list"

definition ascii :: "string \<Rightarrow> jstring" where
  "ascii s = map (\<lambda>c. of_nat (of_char c)) s"

text \<open>A thrown \<open>Error\<close> object; only its \<open>message\<close> is ever read.\<close>

datatype js_error = JsError (message: jstring)

type_synonym 'a throws = "js_error + 'a"

text \<open>A number: a real, or \<open>NaN\<close> (what \<open>parseInt\<close> gives on a non-numeric argument).\<close>

datatype js_number = Num real | NaN

fun js_divide :: "js_number \<Rightarrow> real \<Rightarrow> js_number" where
  "js_divide (Num x) d = Num (x / d)"
| "js_divide NaN d = NaN"

text \<open>A value that is a string, \<open>null\<close> or \<open>undefined\<close> (the \<open>outputDir\<close> option).\<close>

datatype js_path = Undefined | Null | Str jstring

text \<open>\<open>x || null\<close> on an optional string: \<open>undefined\<close> and the empty string are falsy.\<close>

fun or_null :: "jstring option \<Rightarrow> jstring option" where
  "or_null None = None"
| "or_null (Some s) = (if s = [] then None else Some s)"

text \<open>\<open>String(n)\<close> for a non-negative integer, as a template literal prints it.\<close>

function decimal :: "nat \<Rightarrow> jstring" where
  "decimal n =
     (if n < 10 then [of_nat (48 + n)]
      else decimal (n div 10) @ [of_nat (48 + n mod 10)])"
  by pat_completeness auto
termination
  by (relation "measure id") auto

text \<open>
  \<open>String.prototype.trim\<close>: removes the code units of ECMAScript's WhiteSpace and
  LineTerminator productions from both ends.
\<close>

definition isWhiteSpace :: "16 word \<Rightarrow> bool" where
  "isWhiteSpace c \<longleftrightarrow>
     c \<in> {0x9, 0xA, 0xB, 0xC, 0xD, 0x20, 0xA0, 0x1680,
          0x2000, 0x2001, 0x2002, 0x2003, 0x2004, 0x2005, 0x2006, 0x2007, 0x2008, 0x2009,
          0x200A, 0x2028, 0x2029, 0x202F, 0x205F, 0x3000, 0xFEFF}"

definition trim :: "jstring \<Rightarrow> jstring" where
  "trim s = rev (dropWhile isWhiteSpace (rev (dropWhile isWhiteSpace s)))"

section \<open>The external libraries\<close>

text \<open>
  The PDF Access Adapter (mupdf), as the values its calls return. A call that can throw
  returns \<open>Inl\<close> of the error.
\<close>

record pixmap =
  getWidth :: nat
  getHeight :: nat
  asJPEG :: "nat \<Rightarrow> bytes throws"
  asPNG :: "bytes throws"

text \<open>An image block met by \<open>stext.walk\<close>: its \<open>bbox\<close> array and its image.\<close>

record image_block =
  block_bbox :: "real \<times> real \<times> real \<times> real"
  image_toPixmap :: "pixmap throws"

text \<open>
  \<open>page.toStructuredText("preserve-images")\<close>: the image blocks that \<open>walk\<close> visits, in
  order, and whether \<open>walk\<close> itself throws after visiting them.
\<close>

record stext_page =
  imageBlocks :: "image_block list"
  walkThrows :: "js_error option"

record pdf_page =
  asText :: "jstring throws"
  page_toPixmap :: "js_number \<Rightarrow> pixmap throws"
  toStructuredText_images :: "stext_page throws"

record document =
  countPages :: nat
  loadPage :: "nat \<Rightarrow> pdf_page throws"

text \<open>The Metadata Adapter (pdf-parse): the \<open>info\<close> dictionary of a parsed document.\<close>

record pdf_info =
  Title :: "jstring option"
  Author :: "jstring option"
  Subject :: "jstring option"
  Creator :: "jstring option"
  Producer :: "jstring option"
  CreationDate :: "jstring option"
  ModDate :: "jstring option"

text \<open>
  \<open>await PDFParse(dataBuffer)\<close>: the call throws at once, or returns a value that is
  awaited and then rejects or resolves; \<open>ParseResolves None\<close> is a result without
  \<open>info\<close>.
\<close>

datatype parse_outcome = ParseThrows | ParseRejects | ParseResolves "pdf_info option"

text \<open>
  Node's \<open>path\<close> and \<open>fs\<close> modules and the two adapters, over a file system state
  \<open>'fs\<close>. They are parameters of the model: every theorem holds for whatever they compute.
  \<open>mkdirSync\<close> (always called with \<open>recursive: true\<close>) and \<open>writeFileSync\<close> return the
  new file system and the error they throw, if any: a failed write may still have changed
  the disk.
\<close>

record 'fs env =
  path_resolve :: "jstring \<Rightarrow> jstring"
  path_dirname :: "jstring \<Rightarrow> jstring"
  path_basename :: "jstring \<Rightarrow> jstring \<Rightarrow> jstring"
  path_extname :: "jstring \<Rightarrow> jstring"
  path_join :: "jstring \<Rightarrow> jstring \<Rightarrow> jstring"
  fs_existsSync :: "'fs \<Rightarrow> jstring \<Rightarrow> bool"
  fs_readFileSync :: "'fs \<Rightarrow> jstring \<Rightarrow> bytes throws"
  fs_mkdirSync :: "'fs \<Rightarrow> jstring \<Rightarrow> js_error option \<times> 'fs"
  fs_writeFileSync :: "'fs \<Rightarrow> jstring \<Rightarrow> bytes \<Rightarrow> js_error option \<times> 'fs"
  PDFParse :: "bytes \<Rightarrow> parse_outcome"
  openDocument :: "bytes \<Rightarrow> document throws"
  toBase64 :: "bytes \<Rightarrow> jstring"
  parseInt :: "jstring option \<Rightarrow> js_number"

section \<open>The world: file system and the calls made so far\<close>

datatype adapter_call =
    OpenDocument
  | CountPages
  | LoadPage nat
  | PageAsText nat
  | PageToPixmap nat
  | PixmapEncode
  | PageStructuredImages nat
  | ImageToPixmap

datatype event =
    ExistsSync jstring
  | ReadFileSync jstring
  | MkdirSync js_path
  | WriteFileSync jstring bytes
  | MetadataAdapter
  | PdfAdapter adapter_call

record 'fs world =
  fsys :: 'fs
  trace :: "event list"

definition emit :: "event \<Rightarrow> 'fs world \<Rightarrow> 'fs world" where
  "emit e w = w\<lparr>trace := trace w @ [e]\<rparr>"

fun is_fs_write :: "event \<Rightarrow> bool" where
  "is_fs_write (MkdirSync d) = True"
| "is_fs_write (WriteFileSync d f) = True"
| "is_fs_write e = False"

section \<open>extractText\<close>

record page_text =
  pt_page :: nat
  pt_text :: jstring

record document_metadata =
  title :: "jstring option"
  author :: "jstring option"
  subject :: "jstring option"
  creator :: "jstring option"
  producer :: "jstring option"
  creationDate :: "jstring option"
  modDate :: "jstring option"

record text_result =
  tr_file :: jstring
  tr_totalPages :: nat
  tr_metadata :: document_metadata
  tr_pages :: "page_text list"

definition file_not_found :: "jstring \<Rightarrow> js_error" where
  "file_not_found absolutePath = JsError (ascii ''PDF file not found: '' @ absolutePath)"

definition empty_info :: pdf_info where
  "empty_info = \<lparr>Title = None, Author = None, Subject = None, Creator = None,
     Producer = None, CreationDate = None, ModDate = None\<rparr>"

text \<open>
  The \<open>try\<close> block around the Metadata Adapter: \<open>metadata = data.info || {}\<close> when the
  call resolves, and the initial \<open>{}\<close> when it throws or rejects.
\<close>

fun metadata_of :: "parse_outcome \<Rightarrow> pdf_info" where
  "metadata_of (ParseResolves (Some info)) = info"
| "metadata_of (ParseResolves None) = empty_info"
| "metadata_of ParseThrows = empty_info"
| "metadata_of ParseRejects = empty_info"

text \<open>
  Lines 23 to 34: up to and including the call of the Metadata Adapter, the only place
  where the function can be suspended.
\<close>

definition extractText_head ::
  "'fs env \<Rightarrow> 'fs world \<Rightarrow> jstring \<Rightarrow> (jstring \<times> bytes \<times> parse_outcome) throws \<times> 'fs world"
where
  "extractText_head env w pdfPath =
     (let absolutePath = path_resolve env pdfPath;
          w1 = emit (ExistsSync absolutePath) w
      in if \<not> fs_existsSync env (fsys w1) absolutePath
         then (Inl (file_not_found absolutePath), w1)
         else
           let w2 = emit (ReadFileSync absolutePath) w1
           in case fs_readFileSync env (fsys w2) absolutePath of
                Inl e \<Rightarrow> (Inl e, w2)
              | Inr dataBuffer \<Rightarrow>
                  (Inr (absolutePath, dataBuffer, PDFParse env dataBuffer),
                   emit MetadataAdapter w2))"

text \<open>The \<open>for\<close> loop over the pages, lines 45 to 52.\<close>

function text_loop ::
  "document \<Rightarrow> nat \<Rightarrow> nat \<Rightarrow> page_text list \<Rightarrow> 'fs world \<Rightarrow> page_text list throws \<times> 'fs world"
where
  "text_loop doc totalPages i pages w =
     (if i < totalPages then
        (let w1 = emit (PdfAdapter (LoadPage i)) w
         in case loadPage doc i of
              Inl e \<Rightarrow> (Inl e, w1)
            | Inr page \<Rightarrow>
                (let w2 = emit (PdfAdapter (PageAsText i)) w1
                 in (case asText page of
                       Inl e \<Rightarrow> (Inl e, w2)
                     | Inr text \<Rightarrow>
                         text_loop doc totalPages (i + 1)
                           (pages @ [\<lparr>pt_page = i + 1, pt_text = trim text\<rparr>]) w2)))
      else (Inr pages, w))"
  by pat_completeness auto
termination
  by (relation "measure (\<lambda>(doc, totalPages, i, pages, w). totalPages - i)") auto

declare text_loop.simps [simp del]

text \<open>Lines 35 to 67: from the metadata to the result.\<close>

definition extractText_tail ::
  "'fs env \<Rightarrow> 'fs world \<Rightarrow> jstring \<Rightarrow> bytes \<Rightarrow> parse_outcome \<Rightarrow> text_result throws \<times> 'fs world"
where
  "extractText_tail env w absolutePath dataBuffer outcome =
     (let metadata = metadata_of outcome;
          w1 = emit (PdfAdapter OpenDocument) w
      in case openDocument env dataBuffer of
           Inl e \<Rightarrow> (Inl e, w1)
         | Inr doc \<Rightarrow>
             (let w2 = emit (PdfAdapter CountPages) w1;
                  totalPages = countPages doc
              in (case text_loop doc totalPages 0 [] w2 of
                    (Inl e, w3) \<Rightarrow> (Inl e, w3)
                  | (Inr pages, w3) \<Rightarrow>
                      (Inr \<lparr>tr_file = absolutePath,
                            tr_totalPages = totalPages,
                            tr_metadata =
                              \<lparr>title = or_null (Title metadata),
                               author = or_null (Author metadata),
                               subject = or_null (Subject metadata),
                               creator = or_null (Creator metadata),
                               producer = or_null (Producer metadata),
                               creationDate = or_null (CreationDate metadata),
                               modDate = or_null (ModDate metadata)\<rparr>,
                            tr_pages = pages\<rparr>, w3))))"

definition extractText :: "'fs env \<Rightarrow> 'fs world \<Rightarrow> jstring \<Rightarrow> text_result throws \<times> 'fs world" where
  "extractText env w pdfPath =
     (case extractText_head env w pdfPath of
        (Inl e, w1) \<Rightarrow> (Inl e, w1)
      | (Inr (absolutePath, dataBuffer, outcome), w1) \<Rightarrow>
          extractText_tail env w1 absolutePath dataBuffer outcome)"

section \<open>extractImages\<close>

text \<open>
  The \<open>options\<close> argument; \<open>None\<close> (for \<open>outputDir\<close>, \<open>Undefined\<close>) is a property
  that is absent or \<open>undefined\<close>, the only case in which a destructuring default applies.
\<close>

record options =
  opt_outputDir :: js_path
  opt_format :: "jstring option"
  opt_base64 :: "bool option"
  opt_dpi :: "js_number option"

definition no_options :: options where
  "no_options = \<lparr>opt_outputDir = Undefined, opt_format = None, opt_base64 = None, opt_dpi = None\<rparr>"

record bbox_info =
  bbox_x :: real
  bbox_y :: real
  bbox_w :: real
  bbox_h :: real

text \<open>
  An entry of \<open>images\<close>. The fields are the source's \<open>page\<close>, \<open>imageIndex\<close>, \<open>width\<close>,
  \<open>height\<close>, \<open>format\<close>, \<open>type\<close>, \<open>bbox\<close>, \<open>base64\<close>, \<open>mimeType\<close> and \<open>path\<close>;
  \<open>None\<close> is a property never assigned.
\<close>

record image_info =
  ii_page :: nat
  ii_imageIndex :: nat
  ii_width :: nat
  ii_height :: nat
  ii_format :: jstring
  ii_type :: "jstring option"
  ii_bbox :: "bbox_info option"
  ii_base64 :: "jstring option"
  ii_mimeType :: "jstring option"
  ii_path :: "jstring option"

record image_result =
  ir_file :: jstring
  ir_totalPages :: nat
  ir_totalImages :: nat
  ir_images :: "image_info list"

text \<open>The options object handed to \<open>extractEmbeddedImages\<close>.\<close>

record embed_options =
  eo_outputDir :: js_path
  eo_format :: jstring
  eo_returnBase64 :: bool

text \<open>
  What Node throws (\<open>ERR_INVALID_ARG_TYPE\<close>) when \<open>fs.mkdirSync\<close> or \<open>path.join\<close> is given
  a path that is not a string; \<open>received\<close> is how the message prints the value.
\<close>

fun received :: "js_path \<Rightarrow> jstring" where
  "received Null = ascii ''null''"
| "received Undefined = ascii ''undefined''"
| "received (Str s) = s"

definition mkdir_invalid_path :: "js_path \<Rightarrow> js_error" where
  "mkdir_invalid_path dir =
     JsError (ascii ''The '' @ [0x22] @ ascii ''path'' @ [0x22] @
              ascii '' argument must be of type string or an instance of Buffer or URL. Received '' @
              received dir)"

definition join_invalid_path :: "js_path \<Rightarrow> js_error" where
  "join_invalid_path dir =
     JsError (ascii ''The '' @ [0x22] @ ascii ''path'' @ [0x22] @
              ascii '' argument must be of type string. Received '' @ received dir)"

fun mkdirSync :: "'fs env \<Rightarrow> js_path \<Rightarrow> 'fs world \<Rightarrow> js_error option \<times> 'fs world" where
  "mkdirSync env (Str dir) w =
     (let w1 = emit (MkdirSync (Str dir)) w;
          (err, fs') = fs_mkdirSync env (fsys w1) dir
      in (err, w1\<lparr>fsys := fs'\<rparr>))"
| "mkdirSync env dir w = (Some (mkdir_invalid_path dir), emit (MkdirSync dir) w)"

definition encode :: "jstring \<Rightarrow> pixmap \<Rightarrow> bytes throws" where
  "encode format pixmap =
     (if format = ascii ''jpeg'' then asJPEG pixmap 85 else asPNG pixmap)"

definition mimeType_of :: "jstring \<Rightarrow> jstring" where
  "mimeType_of format =
     (if format = ascii ''jpeg'' then ascii ''image/jpeg'' else ascii ''image/png'')"

definition ext_of :: "jstring \<Rightarrow> jstring" where
  "ext_of format = (if format = ascii ''jpeg'' then ascii ''jpg'' else ascii ''png'')"

text \<open>
  Lines 137 to 146 and, with another file name, lines 209 to 219: the encoded image goes
  into the entry as base64 with its MIME type, or to a file under \<open>outputDir\<close> whose path
  goes into the entry.
\<close>

definition deliver ::
  "'fs env \<Rightarrow> embed_options \<Rightarrow> jstring \<Rightarrow> bytes \<Rightarrow> image_info \<Rightarrow> 'fs world
     \<Rightarrow> image_info throws \<times> 'fs world"
where
  "deliver env opts fileName imgBuffer imageInfo w =
     (if eo_returnBase64 opts then
        (Inr (imageInfo\<lparr>ii_base64 := Some (toBase64 env imgBuffer),
                        ii_mimeType := Some (mimeType_of (eo_format opts))\<rparr>), w)
      else
        (case eo_outputDir opts of
           Str dir \<Rightarrow>
             (let filePath = path_join env dir fileName;
                  w1 = emit (WriteFileSync filePath imgBuffer) w;
                  (err, fs') = fs_writeFileSync env (fsys w1) filePath imgBuffer;
                  w2 = w1\<lparr>fsys := fs'\<rparr>
              in case err of
                   Some e \<Rightarrow> (Inl e, w2)
                 | None \<Rightarrow> (Inr (imageInfo\<lparr>ii_path := Some filePath\<rparr>), w2))
         | dir \<Rightarrow> (Inl (join_invalid_path dir), w)))"

definition page_fileName :: "jstring \<Rightarrow> nat \<Rightarrow> jstring \<Rightarrow> jstring" where
  "page_fileName pdfBaseName i format =
     pdfBaseName @ ascii ''_page_'' @ decimal (i + 1) @ ascii ''.'' @ ext_of format"

definition embedded_fileName :: "jstring \<Rightarrow> nat \<Rightarrow> nat \<Rightarrow> jstring \<Rightarrow> jstring" where
  "embedded_fileName pdfBaseName pageIndex imageIndex format =
     pdfBaseName @ ascii ''_page_'' @ decimal (pageIndex + 1) @ ascii ''_img_'' @
     decimal imageIndex @ ascii ''.'' @ ext_of format"

definition bbox_of :: "image_block \<Rightarrow> bbox_info" where
  "bbox_of block =
     (case block_bbox block of
        (b0, b1, b2, b3) \<Rightarrow> \<lparr>bbox_x = b0, bbox_y = b1, bbox_w = b2 - b0, bbox_h = b3 - b1\<rparr>)"

text \<open>
  The \<open>onImageBlock\<close> callback, lines 181 to 226, on the local variables \<open>images\<close> and
  \<open>imageIndex\<close> of \<open>extractEmbeddedImages\<close>. Whatever is thrown inside is caught and leaves
  both as they were.
\<close>

definition onImageBlock ::
  "'fs env \<Rightarrow> nat \<Rightarrow> jstring \<Rightarrow> embed_options \<Rightarrow> image_block \<Rightarrow> image_info list \<times> nat
     \<Rightarrow> 'fs world \<Rightarrow> (image_info list \<times> nat) \<times> 'fs world"
where
  "onImageBlock env pageIndex pdfBaseName opts block st w =
     (case st of (images, imageIndex) \<Rightarrow>
        (let w1 = emit (PdfAdapter ImageToPixmap) w
         in (case image_toPixmap block of
               Inl e \<Rightarrow> ((images, imageIndex), w1)
             | Inr pixmap \<Rightarrow>
               (let width = getWidth pixmap;
                    height = getHeight pixmap;
                    w2 = emit (PdfAdapter PixmapEncode) w1
                in (case encode (eo_format opts) pixmap of
                      Inl e \<Rightarrow> ((images, imageIndex), w2)
                    | Inr imgBuffer \<Rightarrow>
                        (let imageInfo =
                               \<lparr>ii_page = pageIndex + 1,
                                ii_imageIndex = imageIndex,
                                ii_width = width,
                                ii_height = height,
                                ii_format = eo_format opts,
                                ii_type = Some (ascii ''embedded''),
                                ii_bbox = Some (bbox_of block),
                                ii_base64 = None,
                                ii_mimeType = None,
                                ii_path = None\<rparr>;
                             fileName =
                               embedded_fileName pdfBaseName pageIndex imageIndex
                                 (eo_format opts)
                         in (case deliver env opts fileName imgBuffer imageInfo w2 of
                               (Inl e, w3) \<Rightarrow> ((images, imageIndex), w3)
                             | (Inr imageInfo', w3) \<Rightarrow>
                                 ((images @ [imageInfo'], imageIndex + 1), w3))))))))"

text \<open>\<open>stext.walk\<close> calling \<open>onImageBlock\<close> on each image block in turn.\<close>

fun walk ::
  "'fs env \<Rightarrow> nat \<Rightarrow> jstring \<Rightarrow> embed_options \<Rightarrow> image_block list \<Rightarrow> image_info list \<times> nat
     \<Rightarrow> 'fs world \<Rightarrow> (image_info list \<times> nat) \<times> 'fs world"
where
  "walk env pageIndex pdfBaseName opts [] st w = (st, w)"
| "walk env pageIndex pdfBaseName opts (block # blocks) st w =
     (case onImageBlock env pageIndex pdfBaseName opts block st w of
        (st', w') \<Rightarrow> walk env pageIndex pdfBaseName opts blocks st' w')"

definition extractEmbeddedImages ::
  "'fs env \<Rightarrow> pdf_page \<Rightarrow> nat \<Rightarrow> jstring \<Rightarrow> embed_options \<Rightarrow> 'fs world
     \<Rightarrow> image_info list throws \<times> 'fs world"
where
  "extractEmbeddedImages env page pageIndex pdfBaseName opts w =
     (let w1 = emit (PdfAdapter (PageStructuredImages pageIndex)) w
      in case toStructuredText_images page of
           Inl e \<Rightarrow> (Inl e, w1)
         | Inr stext \<Rightarrow>
             (case walk env pageIndex pdfBaseName opts (imageBlocks stext) ([], 1) w1 of
                ((images, imageIndex), w2) \<Rightarrow>
                  (case walkThrows stext of
                     Some e \<Rightarrow> (Inl e, w2)
                   | None \<Rightarrow> (Inr images, w2))))"

text \<open>
  The body of the \<open>for\<close> loop of \<open>extractImages\<close>, lines 109 to 160: the entries that one
  page adds to \<open>images\<close>.
\<close>

definition image_page ::
  "'fs env \<Rightarrow> document \<Rightarrow> jstring \<Rightarrow> js_number \<Rightarrow> embed_options \<Rightarrow> nat \<Rightarrow> 'fs world
     \<Rightarrow> image_info list throws \<times> 'fs world"
where
  "image_page env doc pdfBaseName scale opts i w =
     (let w1 = emit (PdfAdapter (LoadPage i)) w
      in case loadPage doc i of
           Inl e \<Rightarrow> (Inl e, w1)
         | Inr page \<Rightarrow>
             (let w2 = emit (PdfAdapter (PageToPixmap i)) w1
              in (case page_toPixmap page scale of
                    Inl e \<Rightarrow> (Inl e, w2)
                  | Inr pixmap \<Rightarrow>
                      (let width = getWidth pixmap;
                           height = getHeight pixmap;
                           w3 = emit (PdfAdapter PixmapEncode) w2
                       in (case encode (eo_format opts) pixmap of
                             Inl e \<Rightarrow> (Inl e, w3)
                           | Inr imgBuffer \<Rightarrow>
                               (let imageInfo =
                                      \<lparr>ii_page = i + 1,
                                       ii_imageIndex = 0,
                                       ii_width = width,
                                       ii_height = height,
                                       ii_format = eo_format opts,
                                       ii_type = None,
                                       ii_bbox = None,
                                       ii_base64 = None,
                                       ii_mimeType = None,
                                       ii_path = None\<rparr>;
                                    fileName = page_fileName pdfBaseName i (eo_format opts)
                                in (case deliver env opts fileName imgBuffer imageInfo w3 of
                                      (Inl e, w4) \<Rightarrow> (Inl e, w4)
                                    | (Inr imageInfo', w4) \<Rightarrow>
                                        (case extractEmbeddedImages env page i pdfBaseName
                                                opts w4 of
                                           (Inl e, w5) \<Rightarrow> (Inr [imageInfo'], w5)
                                         | (Inr embeddedImages, w5) \<Rightarrow>
                                             (Inr (imageInfo' # embeddedImages), w5)))))))))"

function image_loop ::
  "'fs env \<Rightarrow> document \<Rightarrow> jstring \<Rightarrow> js_number \<Rightarrow> embed_options \<Rightarrow> nat \<Rightarrow> nat
     \<Rightarrow> image_info list \<Rightarrow> 'fs world \<Rightarrow> image_info list throws \<times> 'fs world"
where
  "image_loop env doc pdfBaseName scale opts totalPages i images w =
     (if i < totalPages then
        (case image_page env doc pdfBaseName scale opts i w of
           (Inl e, w') \<Rightarrow> (Inl e, w')
         | (Inr pageImages, w') \<Rightarrow>
             image_loop env doc pdfBaseName scale opts totalPages (i + 1)
               (images @ pageImages) w')
      else (Inr images, w))"
  by pat_completeness auto
termination
  by (relation
        "measure (\<lambda>(env, doc, pdfBaseName, scale, opts, totalPages, i, images, w). totalPages - i)")
     auto

declare image_loop.simps [simp del]

definition extractImages ::
  "'fs env \<Rightarrow> 'fs world \<Rightarrow> jstring \<Rightarrow> options \<Rightarrow> image_result throws \<times> 'fs world"
where
  "extractImages env w pdfPath options =
     (let absolutePath = path_resolve env pdfPath;
          w1 = emit (ExistsSync absolutePath) w
      in if \<not> fs_existsSync env (fsys w1) absolutePath
         then (Inl (file_not_found absolutePath), w1)
         else
           let outputDir =
                 (case opt_outputDir options of
                    Undefined \<Rightarrow> Str (path_dirname env absolutePath)
                  | dir \<Rightarrow> dir);
               format = (case opt_format options of None \<Rightarrow> ascii ''png'' | Some f \<Rightarrow> f);
               returnBase64 = (case opt_base64 options of None \<Rightarrow> False | Some b \<Rightarrow> b);
               dpi = (case opt_dpi options of None \<Rightarrow> Num 150 | Some d \<Rightarrow> d);
               w2 = emit (ReadFileSync absolutePath) w1
           in case fs_readFileSync env (fsys w2) absolutePath of
                Inl e \<Rightarrow> (Inl e, w2)
              | Inr dataBuffer \<Rightarrow>
                  (let w3 = emit (PdfAdapter OpenDocument) w2
                   in (case openDocument env dataBuffer of
                         Inl e \<Rightarrow> (Inl e, w3)
                       | Inr doc \<Rightarrow>
                           (let w4 = emit (PdfAdapter CountPages) w3;
                                totalPages = countPages doc
                            in (case (if \<not> returnBase64 then mkdirSync env outputDir w4
                                      else (None, w4)) of
                                  (Some e, w5) \<Rightarrow> (Inl e, w5)
                                | (None, w5) \<Rightarrow>
                                    (let pdfBaseName =
                                           path_basename env absolutePath
                                             (path_extname env absolutePath);
                                         scale = js_divide dpi 72;
                                         opts = \<lparr>eo_outputDir = outputDir, eo_format = format,
                                                 eo_returnBase64 = returnBase64\<rparr>
                                     in (case image_loop env doc pdfBaseName scale opts
                                                totalPages 0 [] w5 of
                                           (Inl e, w6) \<Rightarrow> (Inl e, w6)
                                         | (Inr images, w6) \<Rightarrow>
                                             (Inr \<lparr>ir_file = absolutePath,
                                                   ir_totalPages = totalPages,
                                                   ir_totalImages = length images,
                                                   ir_images = images\<rparr>, w6))))))))"

section \<open>extractAll\<close>

record combined_page =
  cp_page :: nat
  cp_text :: jstring
  cp_images :: "image_info list"

record combined_result =
  cr_file :: jstring
  cr_totalPages :: nat
  cr_metadata :: document_metadata
  cr_pages :: "combined_page list"
  cr_totalImages :: nat

text \<open>The object built from the two results, lines 245 to 259.\<close>

definition combine :: "text_result \<Rightarrow> image_result \<Rightarrow> combined_result" where
  "combine textResult imageResult =
     \<lparr>cr_file = tr_file textResult,
      cr_totalPages = tr_totalPages textResult,
      cr_metadata = tr_metadata textResult,
      cr_pages =
        map (\<lambda>p. \<lparr>cp_page = pt_page p, cp_text = pt_text p,
                   cp_images = filter (\<lambda>img. ii_page img = pt_page p) (ir_images imageResult)\<rparr>)
          (tr_pages textResult),
      cr_totalImages = ir_totalImages imageResult\<rparr>"

text \<open>
  \<open>Promise.all\<close> on two promises, the first argument being the one that settles first: it
  rejects with the first rejection it is notified of, and resolves when both have resolved.
\<close>

fun promise_all ::
  "'a throws \<Rightarrow> 'b throws \<Rightarrow> ('a \<Rightarrow> 'b \<Rightarrow> 'c) \<Rightarrow> 'c throws"
where
  "promise_all (Inl e) second f = Inl e"
| "promise_all (Inr a) (Inl e) f = Inl e"
| "promise_all (Inr a) (Inr b) f = Inr (f a b)"

text \<open>
  \<open>extractAll\<close> calls \<open>extractText\<close> and then \<open>extractImages\<close>. The only \<open>await\<close> in the two
  is the one on the Metadata Adapter: \<open>extractText\<close> runs up to it; when the adapter throws
  at once, no \<open>await\<close> is reached and \<open>extractText\<close> runs to its end before \<open>extractImages\<close>
  starts; otherwise \<open>extractText\<close> is suspended there, \<open>extractImages\<close> runs from start to
  end, and \<open>extractText\<close> resumes afterwards. The calls of the resumed part are recorded
  also when \<open>extractImages\<close> has already thrown.
\<close>

definition extractAll ::
  "'fs env \<Rightarrow> 'fs world \<Rightarrow> jstring \<Rightarrow> options \<Rightarrow> combined_result throws \<times> 'fs world"
where
  "extractAll env w pdfPath options =
     (case extractText_head env w pdfPath of
        (Inl e, w1) \<Rightarrow>
          (case extractImages env w1 pdfPath options of
             (imageResult, w2) \<Rightarrow> (promise_all (Inl e) imageResult combine, w2))
      | (Inr (absolutePath, dataBuffer, outcome), w1) \<Rightarrow>
          (case outcome of
             ParseThrows \<Rightarrow>
               (case extractText_tail env w1 absolutePath dataBuffer outcome of
                  (textResult, w2) \<Rightarrow>
                    (case extractImages env w2 pdfPath options of
                       (imageResult, w3) \<Rightarrow>
                         (promise_all textResult imageResult combine, w3)))
           | _ \<Rightarrow>
               (case extractImages env w1 pdfPath options of
                  (imageResult, w2) \<Rightarrow>
                    (case extractText_tail env w2 absolutePath dataBuffer outcome of
                       (textResult, w3) \<Rightarrow>
                         (promise_all imageResult textResult
                            (\<lambda>images text. combine text images), w3)))))"

section \<open>The MCP front-end\<close>

text \<open>
  A content block: \<open>{type: "text", text}\<close> or \<open>{type: "image", data, mimeType}\<close>. In a tool
  result, \<open>isError\<close> is \<open>True\<close> when the property is present (it is only ever set to
  \<open>true\<close>).
\<close>

datatype content_block =
    TextContent jstring
  | ImageContent jstring "jstring option"

record tool_result =
  content :: "content_block list"
  isError :: bool

text \<open>Truthiness of a value that is a string, \<open>null\<close> or \<open>undefined\<close>.\<close>

fun truthy :: "jstring option \<Rightarrow> bool" where
  "truthy None = False"
| "truthy (Some s) = (s \<noteq> [])"

definition newline :: jstring where
  "newline = [0x0A]"

text \<open>A header line such as \<open>Title: ...\<close>, printed when the value is truthy.\<close>

definition labelled :: "string \<Rightarrow> jstring option \<Rightarrow> jstring" where
  "labelled label v =
     (case v of
        Some s \<Rightarrow> (if s \<noteq> [] then ascii label @ s @ newline else [])
      | None \<Rightarrow> [])"

text \<open>\<open>page.text || "(empty page)"\<close>.\<close>

definition or_empty_page :: "jstring \<Rightarrow> jstring" where
  "or_empty_page text = (if text \<noteq> [] then text else ascii ''(empty page)'')"

definition heavy_rule :: "nat \<Rightarrow> jstring" where
  "heavy_rule n = replicate n 0x2501"

definition light_rule :: "nat \<Rightarrow> jstring" where
  "light_rule n = replicate n 0x2500"

definition page_glyph :: jstring where
  "page_glyph = [0xD83D, 0xDCC4]"

definition picture_glyph :: jstring where
  "picture_glyph = [0xD83D, 0xDDBC, 0xFE0F]"

definition error_reply :: "js_error \<Rightarrow> tool_result" where
  "error_reply error =
     \<lparr>content = [TextContent (ascii ''Error: '' @ message error)], isError = True\<rparr>"

definition mcp_page_header :: "nat \<Rightarrow> jstring" where
  "mcp_page_header n =
     light_rule 2 @ ascii '' Page '' @ decimal n @ ascii '' '' @ light_rule 22 @ newline"

definition mcp_text_output :: "text_result \<Rightarrow> jstring" where
  "mcp_text_output result =
     page_glyph @ ascii '' PDF Text Extraction: '' @ tr_file result @ newline @
     heavy_rule 36 @ newline @
     ascii ''Total Pages: '' @ decimal (tr_totalPages result) @ newline @
     labelled ''Title: '' (title (tr_metadata result)) @
     labelled ''Author: '' (author (tr_metadata result)) @
     labelled ''Subject: '' (subject (tr_metadata result)) @
     newline @
     concat (map (\<lambda>page. mcp_page_header (pt_page page) @ or_empty_page (pt_text page) @
                           newline @ newline)
               (tr_pages result))"

text \<open>The handler of the tool \<open>extract_pdf_text\<close>.\<close>

definition extract_pdf_text :: "'fs env \<Rightarrow> 'fs world \<Rightarrow> jstring \<Rightarrow> tool_result \<times> 'fs world" where
  "extract_pdf_text env w pdfPath =
     (case extractText env w pdfPath of
        (Inr result, w') \<Rightarrow>
          (\<lparr>content = [TextContent (mcp_text_output result)], isError = False\<rparr>, w')
      | (Inl error, w') \<Rightarrow> (error_reply error, w'))"

definition mcp_image_line :: "image_info \<Rightarrow> jstring" where
  "mcp_image_line img =
     [0x2022] @ ascii '' Page '' @ decimal (ii_page img) @
     (if ii_type img = Some (ascii ''embedded'')
      then ascii '' (embedded image #'' @ decimal (ii_imageIndex img) @ ascii '')''
      else ascii '' (full page render)'') @
     ascii '': '' @ decimal (ii_width img) @ [0xD7] @ decimal (ii_height img) @ ascii ''px'' @
     (case ii_path img of
        Some p \<Rightarrow> (if p \<noteq> [] then ascii '' '' @ [0x2192] @ ascii '' '' @ p else [])
      | None \<Rightarrow> []) @
     newline"

definition mcp_images_summary :: "image_result \<Rightarrow> jstring" where
  "mcp_images_summary result =
     picture_glyph @ ascii '' PDF Image Extraction: '' @ ir_file result @ newline @
     heavy_rule 36 @ newline @
     ascii ''Total Pages: '' @ decimal (ir_totalPages result) @ newline @
     ascii ''Total Images Extracted: '' @ decimal (ir_totalImages result) @ newline @ newline @
     concat (map mcp_image_line (ir_images result))"

text \<open>One image block for each entry whose \<open>base64\<close> is truthy.\<close>

definition inline_images :: "image_info list \<Rightarrow> content_block list" where
  "inline_images imgs =
     concat (map (\<lambda>img. case ii_base64 img of
                           Some b \<Rightarrow> (if b \<noteq> [] then [ImageContent b (ii_mimeType img)] else [])
                         | None \<Rightarrow> [])
               imgs)"

text \<open>
  The handler of the tool \<open>extract_pdf_images\<close>, on arguments that have passed the schema:
  \<open>outputDir\<close> may be absent, the others have their defaults filled in.
\<close>

definition extract_pdf_images ::
  "'fs env \<Rightarrow> 'fs world \<Rightarrow> jstring \<Rightarrow> jstring option \<Rightarrow> jstring \<Rightarrow> bool \<Rightarrow> js_number
     \<Rightarrow> tool_result \<times> 'fs world"
where
  "extract_pdf_images env w pdfPath outputDir format returnBase64 dpi =
     (case extractImages env w pdfPath
             \<lparr>opt_outputDir = (case outputDir of None \<Rightarrow> Undefined | Some dir \<Rightarrow> Str dir),
              opt_format = Some format,
              opt_base64 = Some returnBase64,
              opt_dpi = Some dpi\<rparr> of
        (Inr result, w') \<Rightarrow>
          (\<lparr>content =
              [TextContent (mcp_images_summary result)] @
              (if returnBase64 then inline_images (ir_images result) else []),
            isError = False\<rparr>, w')
      | (Inl error, w') \<Rightarrow> (error_reply error, w'))"

definition mcp_all_summary :: "combined_result \<Rightarrow> jstring" where
  "mcp_all_summary result =
     page_glyph @ picture_glyph @ ascii '' Full PDF Extraction: '' @ cr_file result @ newline @
     heavy_rule 36 @ newline @
     ascii ''Total Pages: '' @ decimal (cr_totalPages result) @ newline @
     ascii ''Total Images: '' @ decimal (cr_totalImages result) @ newline @
     labelled ''Title: '' (title (cr_metadata result)) @
     labelled ''Author: '' (author (cr_metadata result)) @
     newline"

definition mcp_all_page :: "combined_page \<Rightarrow> content_block list" where
  "mcp_all_page page =
     TextContent
       (mcp_page_header (cp_page page) @ or_empty_page (cp_text page) @ newline @
        (if length (cp_images page) > 0
         then newline @ ascii ''['' @ decimal (length (cp_images page)) @
              ascii '' image(s) on this page]'' @ newline
         else [])) #
     inline_images (cp_images page)"

text \<open>The handler of the tool \<open>extract_pdf_all\<close>; it always asks for inline images.\<close>

definition extract_pdf_all ::
  "'fs env \<Rightarrow> 'fs world \<Rightarrow> jstring \<Rightarrow> jstring option \<Rightarrow> jstring \<Rightarrow> js_number
     \<Rightarrow> tool_result \<times> 'fs world"
where
  "extract_pdf_all env w pdfPath outputDir format dpi =
     (case extractAll env w pdfPath
             \<lparr>opt_outputDir = (case outputDir of None \<Rightarrow> Undefined | Some dir \<Rightarrow> Str dir),
              opt_format = Some format,
              opt_base64 = Some True,
              opt_dpi = Some dpi\<rparr> of
        (Inr result, w') \<Rightarrow>
          (\<lparr>content =
              TextContent (mcp_all_summary result) #
              concat (map mcp_all_page (cr_pages result)),
            isError = False\<rparr>, w')
      | (Inl error, w') \<Rightarrow> (error_reply error, w'))"

section \<open>The command-line front-end\<close>

record parsed_args =
  pa_command :: "jstring option"
  pa_pdfPath :: "jstring option"
  pa_outputDir :: js_path
  pa_format :: "jstring option"
  pa_dpi :: js_number
  pa_base64 :: bool
  pa_json :: bool

definition initial_args :: parsed_args where
  "initial_args =
     \<lparr>pa_command = None, pa_pdfPath = None, pa_outputDir = Null,
      pa_format = Some (ascii ''png''), pa_dpi = Num 150, pa_base64 = False, pa_json = False\<rparr>"

definition startsWith_dash :: "jstring \<Rightarrow> bool" where
  "startsWith_dash arg = (case arg of [] \<Rightarrow> False | c # cs \<Rightarrow> c = 0x2D)"

text \<open>\<open>args[++i]\<close>: the next argument, \<open>undefined\<close> past the end.\<close>

fun next_arg :: "jstring list \<Rightarrow> jstring option" where
  "next_arg [] = None"
| "next_arg (v # rest) = Some v"

fun next_path :: "jstring list \<Rightarrow> js_path" where
  "next_path [] = Undefined"
| "next_path (v # rest) = Str v"

text \<open>
  One iteration of the \<open>while\<close> loop of \<open>parseArgs\<close>, on \<open>arg = args[i]\<close> and the
  arguments \<open>rest\<close> after it: the new \<open>parsed\<close> and the arguments from the new \<open>i\<close> on.
\<close>

definition parseArgs_step ::
  "'fs env \<Rightarrow> jstring \<Rightarrow> jstring list \<Rightarrow> parsed_args \<Rightarrow> jstring list \<times> parsed_args"
where
  "parseArgs_step env arg rest parsed =
     (if \<not> truthy (pa_command parsed) \<and> \<not> startsWith_dash arg
      then (rest, parsed\<lparr>pa_command := Some arg\<rparr>)
      else if \<not> truthy (pa_pdfPath parsed) \<and> \<not> startsWith_dash arg \<and> truthy (pa_command parsed)
      then (rest, parsed\<lparr>pa_pdfPath := Some arg\<rparr>)
      else if arg = ascii ''--output-dir'' \<or> arg = ascii ''-o''
      then (drop 1 rest, parsed\<lparr>pa_outputDir := next_path rest\<rparr>)
      else if arg = ascii ''--format'' \<or> arg = ascii ''-f''
      then (drop 1 rest, parsed\<lparr>pa_format := next_arg rest\<rparr>)
      else if arg = ascii ''--dpi'' \<or> arg = ascii ''-d''
      then (drop 1 rest, parsed\<lparr>pa_dpi := parseInt env (next_arg rest)\<rparr>)
      else if arg = ascii ''--base64'' \<or> arg = ascii ''-b''
      then (rest, parsed\<lparr>pa_base64 := True\<rparr>)
      else if arg = ascii ''--json'' \<or> arg = ascii ''-j''
      then (rest, parsed\<lparr>pa_json := True\<rparr>)
      else (rest, parsed))"

function parseArgs_loop :: "'fs env \<Rightarrow> jstring list \<Rightarrow> parsed_args \<Rightarrow> parsed_args" where
  "parseArgs_loop env [] parsed = parsed"
| "parseArgs_loop env (arg # rest) parsed =
     (case parseArgs_step env arg rest parsed of
        (rest', parsed') \<Rightarrow> parseArgs_loop env rest' parsed')"
  by pat_completeness auto
termination
proof (relation "measure (\<lambda>(env, args, parsed). length args)", goal_cases)
  case 1
  show ?case by simp
next
  case (2 env arg rest parsed rest' parsed')
  then have "fst (parseArgs_step env arg rest parsed) = rest'"
    by (metis fst_conv)
  then have "rest' = rest \<or> rest' = drop 1 rest"
    unfolding parseArgs_step_def
    by (simp only: fst_conv if_distrib [of fst] if_cancel split: if_splits) blast+
  then have "length rest' \<le> length rest"
    by (cases rest) auto
  then show ?case by simp
qed

definition parseArgs :: "'fs env \<Rightarrow> jstring list \<Rightarrow> parsed_args" where
  "parseArgs env args = parseArgs_loop env args initial_args"

text \<open>
  What the process prints. The help text and \<open>JSON.stringify(result, null, 2)\<close> are kept
  as the value printed, not as its characters.
\<close>

datatype console_output =
    Help
  | Log jstring
  | LogJsonText text_result
  | LogJsonImages image_result
  | LogJsonAll combined_result
  | ErrorLine jstring
  | ErrorStack js_error
  | StartServer

text \<open>The end of a run: what was printed, and the exit code (\<open>None\<close> while serving).\<close>

record cli_run =
  console :: "console_output list"
  exitCode :: "nat option"

definition cli_page_header :: "nat \<Rightarrow> jstring" where
  "cli_page_header n =
     light_rule 2 @ ascii '' Page '' @ decimal n @ ascii '' '' @ light_rule 45 @ newline"

definition formatTextOutput ::
  "jstring \<Rightarrow> nat \<Rightarrow> document_metadata \<Rightarrow> (nat \<times> jstring) list \<Rightarrow> jstring"
where
  "formatTextOutput file totalPages metadata pages =
     newline @ page_glyph @ ascii '' PDF: '' @ file @ newline @
     heavy_rule 60 @ newline @
     ascii ''Pages: '' @ decimal totalPages @ newline @
     labelled ''Title: '' (title metadata) @
     labelled ''Author: '' (author metadata) @
     newline @
     concat (map (\<lambda>(page, text). cli_page_header page @ or_empty_page text @ newline @ newline)
               pages)"

definition cli_image_line :: "image_info \<Rightarrow> jstring" where
  "cli_image_line img =
     ascii ''  '' @ [0x2022] @ ascii '' Page '' @ decimal (ii_page img) @ ascii '' ('' @
     (if ii_type img = Some (ascii ''embedded'')
      then ascii ''embedded img #'' @ decimal (ii_imageIndex img)
      else ascii ''full page'') @
     ascii ''): '' @ decimal (ii_width img) @ [0xD7] @ decimal (ii_height img) @ ascii ''px'' @
     (case ii_path img of
        Some p \<Rightarrow> (if p \<noteq> [] then ascii '' '' @ [0x2192] @ ascii '' '' @ p else [])
      | None \<Rightarrow> []) @
     newline"

definition formatImagesOutput :: "jstring \<Rightarrow> nat \<Rightarrow> nat \<Rightarrow> image_info list \<Rightarrow> jstring" where
  "formatImagesOutput file totalPages totalImages images =
     newline @ picture_glyph @ ascii '' Images from: '' @ file @ newline @
     heavy_rule 60 @ newline @
     ascii ''Pages: '' @ decimal totalPages @ newline @
     ascii ''Images: '' @ decimal totalImages @ newline @ newline @
     concat (map cli_image_line images)"

text \<open>The \<open>catch\<close> of \<open>main\<close>; \<open>debug\<close> is whether the variable \<open>DEBUG\<close> is set.\<close>

definition cli_failure :: "bool \<Rightarrow> js_error \<Rightarrow> cli_run" where
  "cli_failure debug error =
     \<lparr>console =
        ErrorLine (newline @ [0x274C] @ ascii '' Error: '' @ message error) #
        (if debug then [ErrorStack error] else []),
      exitCode = Some 1\<rparr>"

definition missing_path_run :: cli_run where
  "missing_path_run =
     \<lparr>console = [ErrorLine (ascii ''Error: Please provide a PDF file path.'')],
      exitCode = Some 1\<rparr>"

definition cli_options :: "parsed_args \<Rightarrow> options" where
  "cli_options opts =
     \<lparr>opt_outputDir = pa_outputDir opts,
      opt_format = pa_format opts,
      opt_base64 = Some (pa_base64 opts),
      opt_dpi = Some (pa_dpi opts)\<rparr>"

definition command_text :: "'fs env \<Rightarrow> bool \<Rightarrow> parsed_args \<Rightarrow> 'fs world \<Rightarrow> cli_run \<times> 'fs world" where
  "command_text env debug opts w =
     (case pa_pdfPath opts of
        Some pdfPath \<Rightarrow>
          (if pdfPath = [] then (missing_path_run, w)
           else case extractText env w pdfPath of
                  (Inl error, w') \<Rightarrow> (cli_failure debug error, w')
                | (Inr result, w') \<Rightarrow>
                    (\<lparr>console =
                        [if pa_json opts then LogJsonText result
                         else Log (formatTextOutput (tr_file result) (tr_totalPages result)
                                     (tr_metadata result)
                                     (map (\<lambda>p. (pt_page p, pt_text p)) (tr_pages result)))],
                      exitCode = Some 0\<rparr>, w'))
      | None \<Rightarrow> (missing_path_run, w))"

definition command_images :: "'fs env \<Rightarrow> bool \<Rightarrow> parsed_args \<Rightarrow> 'fs world \<Rightarrow> cli_run \<times> 'fs world" where
  "command_images env debug opts w =
     (case pa_pdfPath opts of
        Some pdfPath \<Rightarrow>
          (if pdfPath = [] then (missing_path_run, w)
           else case extractImages env w pdfPath (cli_options opts) of
                  (Inl error, w') \<Rightarrow> (cli_failure debug error, w')
                | (Inr result, w') \<Rightarrow>
                    (\<lparr>console =
                        [if pa_json opts then LogJsonImages result
                         else Log (formatImagesOutput (ir_file result) (ir_totalPages result)
                                     (ir_totalImages result) (ir_images result))],
                      exitCode = Some 0\<rparr>, w'))
      | None \<Rightarrow> (missing_path_run, w))"

definition command_all :: "'fs env \<Rightarrow> bool \<Rightarrow> parsed_args \<Rightarrow> 'fs world \<Rightarrow> cli_run \<times> 'fs world" where
  "command_all env debug opts w =
     (case pa_pdfPath opts of
        Some pdfPath \<Rightarrow>
          (if pdfPath = [] then (missing_path_run, w)
           else case extractAll env w pdfPath (cli_options opts) of
                  (Inl error, w') \<Rightarrow> (cli_failure debug error, w')
                | (Inr result, w') \<Rightarrow>
                    (\<lparr>console =
                        (if pa_json opts then [LogJsonAll result]
                         else [Log (formatTextOutput (cr_file result) (cr_totalPages result)
                                      (cr_metadata result)
                                      (map (\<lambda>p. (cp_page p, cp_text p)) (cr_pages result))),
                               Log (formatImagesOutput (cr_file result) (cr_totalPages result)
                                      (cr_totalImages result)
                                      (concat (map cp_images (cr_pages result))))]),
                      exitCode = Some 0\<rparr>, w'))
      | None \<Rightarrow> (missing_path_run, w))"

text \<open>\<open>main\<close> on \<open>process.argv.slice(2)\<close>.\<close>

definition main :: "'fs env \<Rightarrow> bool \<Rightarrow> jstring list \<Rightarrow> 'fs world \<Rightarrow> cli_run \<times> 'fs world" where
  "main env debug args w =
     (if length args = 0 \<or> ascii ''--help'' \<in> set args \<or> ascii ''-h'' \<in> set args
      then (\<lparr>console = [Help], exitCode = Some 0\<rparr>, w)
      else
        let opts = parseArgs env args
        in if pa_command opts = Some (ascii ''text'') then command_text env debug opts w
           else if pa_command opts = Some (ascii ''images'') then command_images env debug opts w
           else if pa_command opts = Some (ascii ''all'') then command_all env debug opts w
           else if pa_command opts = Some (ascii ''serve'')
           then (\<lparr>console = [StartServer], exitCode = None\<rparr>, w)
           else (\<lparr>console =
                    [ErrorLine (ascii ''Unknown command: '' @
                       (case pa_command opts of None \<Rightarrow> ascii ''null'' | Some c \<Rightarrow> c)),
                     Help],
                  exitCode = Some 1\<rparr>, w))"

section \<open>Properties of inputs and results\<close>

definition trimmed :: "jstring \<Rightarrow> bool" where
  "trimmed s \<longleftrightarrow> (s = [] \<or> (\<not> isWhiteSpace (hd s) \<and> \<not> isWhiteSpace (last s)))"

definition text_pages_ok :: "document \<Rightarrow> bool" where
  "text_pages_ok doc =
     list_all (\<lambda>i. case loadPage doc i of
                      Inl e \<Rightarrow> False
                    | Inr page \<Rightarrow> (case asText page of Inl e \<Rightarrow> False | Inr t \<Rightarrow> True))
       [0..<countPages doc]"

definition valid_pdf :: "'fs env \<Rightarrow> 'fs \<Rightarrow> jstring \<Rightarrow> bytes \<Rightarrow> document \<Rightarrow> bool" where
  "valid_pdf env fs pdfPath dataBuffer doc \<longleftrightarrow>
     fs_existsSync env fs (path_resolve env pdfPath) \<and>
     fs_readFileSync env fs (path_resolve env pdfPath) = Inr dataBuffer \<and>
     openDocument env dataBuffer = Inr doc"

text \<open>The Metadata Adapter fails: the call throws, or what it returns rejects.\<close>

fun metadata_fails :: "parse_outcome \<Rightarrow> bool" where
  "metadata_fails ParseThrows = True"
| "metadata_fails ParseRejects = True"
| "metadata_fails (ParseResolves info) = False"

definition null_metadata :: document_metadata where
  "null_metadata =
     \<lparr>title = None, author = None, subject = None, creator = None, producer = None,
      creationDate = None, modDate = None\<rparr>"

text \<open>The options of \<open>extractImages\<close> after the defaults are filled in.\<close>

definition requested_format :: "options \<Rightarrow> jstring" where
  "requested_format options = (case opt_format options of None \<Rightarrow> ascii ''png'' | Some f \<Rightarrow> f)"

definition inline_mode :: "options \<Rightarrow> bool" where
  "inline_mode options = (case opt_base64 options of None \<Rightarrow> False | Some b \<Rightarrow> b)"

definition requested_scale :: "options \<Rightarrow> js_number" where
  "requested_scale options =
     js_divide (case opt_dpi options of None \<Rightarrow> Num 150 | Some d \<Rightarrow> d) 72"

definition output_directory :: "'fs env \<Rightarrow> jstring \<Rightarrow> options \<Rightarrow> js_path" where
  "output_directory env pdfPath options =
     (case opt_outputDir options of
        Undefined \<Rightarrow> Str (path_dirname env (path_resolve env pdfPath))
      | dir \<Rightarrow> dir)"

definition embed_options_of :: "'fs env \<Rightarrow> jstring \<Rightarrow> options \<Rightarrow> embed_options" where
  "embed_options_of env pdfPath options =
     \<lparr>eo_outputDir = output_directory env pdfPath options,
      eo_format = requested_format options,
      eo_returnBase64 = inline_mode options\<rparr>"

definition base_name :: "'fs env \<Rightarrow> jstring \<Rightarrow> jstring" where
  "base_name env pdfPath =
     path_basename env (path_resolve env pdfPath) (path_extname env (path_resolve env pdfPath))"

text \<open>
  An entry carries exactly one kind of delivery: in inline mode the base64 text and the
  MIME type of the format and no path, otherwise a path and neither of the two.
\<close>

definition delivered :: "embed_options \<Rightarrow> image_info \<Rightarrow> bool" where
  "delivered opts a =
     (if eo_returnBase64 opts
      then ii_base64 a \<noteq> None \<and> ii_mimeType a = Some (mimeType_of (eo_format opts)) \<and>
           ii_path a = None
      else ii_path a \<noteq> None \<and> ii_base64 a = None \<and> ii_mimeType a = None)"

definition is_page_render :: "image_info \<Rightarrow> bool" where
  "is_page_render a \<longleftrightarrow> ii_type a = None \<and> ii_imageIndex a = 0"

definition is_embedded :: "image_info \<Rightarrow> bool" where
  "is_embedded a \<longleftrightarrow> ii_type a = Some (ascii ''embedded'')"

text \<open>The entry \<open>a\<close> was made from the image block \<open>b\<close>: its size and its bounding box.\<close>

definition made_from :: "image_info \<Rightarrow> image_block \<Rightarrow> bool" where
  "made_from a b =
     (case image_toPixmap b of
        Inl e \<Rightarrow> False
      | Inr pixmap \<Rightarrow>
          ii_width a = getWidth pixmap \<and> ii_height a = getHeight pixmap \<and>
          ii_bbox a = Some (bbox_of b))"

text \<open>The image of the block can be decoded and encoded in the format.\<close>

definition block_decodes :: "jstring \<Rightarrow> image_block \<Rightarrow> bool" where
  "block_decodes format b =
     (case image_toPixmap b of
        Inl e \<Rightarrow> False
      | Inr pixmap \<Rightarrow> (case encode format pixmap of Inl e \<Rightarrow> False | Inr imgBuffer \<Rightarrow> True))"

text \<open>The entries that one page contributes: the page render, then the embedded images.\<close>

definition page_group :: "nat \<Rightarrow> image_info list \<Rightarrow> bool" where
  "page_group p g \<longleftrightarrow>
     g \<noteq> [] \<and> is_page_render (hd g) \<and> list_all is_embedded (tl g) \<and>
     map (\<lambda>a. (ii_page a, ii_imageIndex a)) g = map (\<lambda>k. (p + 1, k)) [0..<length g]"

text \<open>The order of the entries: by page number, then by image index.\<close>

definition before :: "image_info \<Rightarrow> image_info \<Rightarrow> bool" where
  "before a b \<longleftrightarrow>
     ii_page a < ii_page b \<or> (ii_page a = ii_page b \<and> ii_imageIndex a < ii_imageIndex b)"

text \<open>Every page loads, renders at the scale and encodes in the format.\<close>

definition pages_render :: "document \<Rightarrow> jstring \<Rightarrow> js_number \<Rightarrow> bool" where
  "pages_render doc format scale =
     list_all (\<lambda>i. case loadPage doc i of
                      Inl e \<Rightarrow> False
                    | Inr page \<Rightarrow>
                        (case page_toPixmap page scale of
                           Inl e \<Rightarrow> False
                         | Inr pixmap \<Rightarrow>
                             (case encode format pixmap of Inl e \<Rightarrow> False | Inr b \<Rightarrow> True)))
       [0..<countPages doc]"

text \<open>
  Delivery cannot fail: the images are returned inline, or the output directory is a
  string and the file system accepts every \<open>mkdirSync\<close> and \<open>writeFileSync\<close>.
\<close>

definition writes_succeed :: "'fs env \<Rightarrow> bool" where
  "writes_succeed env \<longleftrightarrow>
     (\<forall>fs dir. fst (fs_mkdirSync env fs dir) = None) \<and>
     (\<forall>fs p b. fst (fs_writeFileSync env fs p b) = None)"

definition delivery_succeeds :: "'fs env \<Rightarrow> options \<Rightarrow> bool" where
  "delivery_succeeds env options \<longleftrightarrow>
     inline_mode options \<or> (opt_outputDir options \<noteq> Null \<and> writes_succeed env)"

text \<open>The file system calls that write: the events \<open>MkdirSync\<close> and \<open>WriteFileSync\<close>.\<close>

definition writes :: "'fs world \<Rightarrow> event list" where
  "writes w = filter is_fs_write (trace w)"

text \<open>
  A call that respects the output directory \<open>dir\<close>: \<open>mkdirSync\<close> creates \<open>dir\<close> itself, and
  \<open>writeFileSync\<close> writes a file joined to \<open>dir\<close>; any other call does.
\<close>

fun under_directory :: "'fs env \<Rightarrow> jstring \<Rightarrow> event \<Rightarrow> bool" where
  "under_directory env dir (MkdirSync d) = (d = Str dir)"
| "under_directory env dir (WriteFileSync p b) = (\<exists>f. p = path_join env dir f)"
| "under_directory env dir e = True"

text \<open>From world \<open>w\<close> to world \<open>w'\<close> only calls that respect \<open>dir\<close> have been made.\<close>

definition writes_under :: "'fs env \<Rightarrow> jstring \<Rightarrow> 'fs world \<Rightarrow> 'fs world \<Rightarrow> bool" where
  "writes_under env dir w w' \<longleftrightarrow>
     (\<exists>new. trace w' = trace w @ new \<and> list_all (under_directory env dir) new)"

text \<open>The entry \<open>a\<close> has the size of the render of page \<open>p\<close> of the document at the scale.\<close>

definition render_of :: "document \<Rightarrow> js_number \<Rightarrow> nat \<Rightarrow> image_info \<Rightarrow> bool" where
  "render_of doc scale p a =
     (case loadPage doc p of
        Inl e \<Rightarrow> False
      | Inr page \<Rightarrow>
          (case page_toPixmap page scale of
             Inl e \<Rightarrow> False
           | Inr pixmap \<Rightarrow> ii_width a = getWidth pixmap \<and> ii_height a = getHeight pixmap))"

section \<open>A sample run\<close>

text \<open>
  A two-page document for the closed instances of the theorems below. Its first page has
  three image blocks, the second of which cannot be decoded; its second page has no
  structured text for images. The file system is a map from paths to contents, and the
  path functions are the POSIX ones on absolute, normalised paths.
\<close>

type_synonym sample_fs = "jstring \<Rightarrow> bytes option"

definition sample_pixmap :: "nat \<Rightarrow> nat \<Rightarrow> bytes \<Rightarrow> pixmap" where
  "sample_pixmap wd ht payload =
     \<lparr>getWidth = wd, getHeight = ht,
      asJPEG = (\<lambda>quality. Inr (0xFF # 0xD8 # payload)),
      asPNG = Inr (0x89 # 0x50 # payload)\<rparr>"

definition sample_blocks :: "image_block list" where
  "sample_blocks =
     [\<lparr>block_bbox = (10, 20, 110, 70), image_toPixmap = Inr (sample_pixmap 100 50 [1])\<rparr>,
      \<lparr>block_bbox = (0, 0, 5, 5), image_toPixmap = Inl (JsError (ascii ''unsupported image''))\<rparr>,
      \<lparr>block_bbox = (200, 300, 260, 340), image_toPixmap = Inr (sample_pixmap 60 40 [2])\<rparr>]"

definition sample_page1 :: pdf_page where
  "sample_page1 =
     \<lparr>asText = Inr (ascii '' Hello world '' @ [0xA]),
      page_toPixmap = (\<lambda>scale. Inr (sample_pixmap 1275 1650 [7])),
      toStructuredText_images = Inr \<lparr>imageBlocks = sample_blocks, walkThrows = None\<rparr>\<rparr>"

definition sample_page2 :: pdf_page where
  "sample_page2 =
     \<lparr>asText = Inr [],
      page_toPixmap = (\<lambda>scale. Inr (sample_pixmap 1275 1650 [8])),
      toStructuredText_images = Inl (JsError (ascii ''no structured text''))\<rparr>"

definition sample_doc :: document where
  "sample_doc =
     \<lparr>countPages = 2,
      loadPage = (\<lambda>i. if i = 0 then Inr sample_page1
                      else if i = 1 then Inr sample_page2
                      else Inl (JsError (ascii ''page out of range'')))\<rparr>"

definition sample_bytes :: bytes where
  "sample_bytes = [0x25, 0x50, 0x44, 0x46]"

definition sample_path :: jstring where
  "sample_path = ascii ''/docs/report.pdf''"

definition missing_path :: jstring where
  "missing_path = ascii ''/docs/missing.pdf''"

definition sample_fs :: sample_fs where
  "sample_fs = (\<lambda>p. if p = sample_path then Some sample_bytes else None)"

definition last_component :: "jstring \<Rightarrow> jstring" where
  "last_component p = rev (takeWhile (\<lambda>c. c \<noteq> 0x2F) (rev p))"

definition sample_extname :: "jstring \<Rightarrow> jstring" where
  "sample_extname p =
     (if 0x2E \<in> set (last_component p)
      then 0x2E # rev (takeWhile (\<lambda>c. c \<noteq> 0x2E) (rev (last_component p)))
      else [])"

definition sample_env :: "sample_fs env" where
  "sample_env =
     \<lparr>path_resolve = (\<lambda>p. p),
      path_dirname = (\<lambda>p. rev (tl (dropWhile (\<lambda>c. c \<noteq> 0x2F) (rev p)))),
      path_basename =
        (\<lambda>p ext. take (length (last_component p) - length ext) (last_component p)),
      path_extname = sample_extname,
      path_join = (\<lambda>dir f. dir @ [0x2F] @ f),
      fs_existsSync = (\<lambda>fs p. fs p \<noteq> None),
      fs_readFileSync =
        (\<lambda>fs p. case fs p of
                   None \<Rightarrow> Inl (JsError (ascii ''ENOENT: no such file or directory''))
                 | Some payload \<Rightarrow> Inr payload),
      fs_mkdirSync = (\<lambda>fs dir. (None, fs)),
      fs_writeFileSync = (\<lambda>fs p payload. (None, fs(p := Some payload))),
      PDFParse = (\<lambda>dataBuffer. ParseThrows),
      openDocument =
        (\<lambda>dataBuffer. if dataBuffer = sample_bytes then Inr sample_doc
                       else Inl (JsError (ascii ''cannot open document''))),
      toBase64 = (\<lambda>payload. map (\<lambda>b. of_nat (unat b)) payload),
      parseInt = (\<lambda>s. NaN)\<rparr>"

definition sample_world :: "sample_fs world" where
  "sample_world = \<lparr>fsys = sample_fs, trace = []\<rparr>"

definition inline_options :: options where
  "inline_options =
     \<lparr>opt_outputDir = Undefined, opt_format = Some (ascii ''jpeg''), opt_base64 = Some True,
      opt_dpi = Some (Num 150)\<rparr>"

text \<open>What \<open>extractImages\<close> returns on the sample document in inline mode, as JPEG.\<close>

definition sample_inline_images :: "image_info list" where
  "sample_inline_images =
     [\<lparr>ii_page = 1, ii_imageIndex = 0, ii_width = 1275, ii_height = 1650,
       ii_format = ascii ''jpeg'', ii_type = None, ii_bbox = None,
       ii_base64 = Some [0xFF, 0xD8, 7], ii_mimeType = Some (ascii ''image/jpeg''),
       ii_path = None\<rparr>,
      \<lparr>ii_page = 1, ii_imageIndex = 1, ii_width = 100, ii_height = 50,
       ii_format = ascii ''jpeg'', ii_type = Some (ascii ''embedded''),
       ii_bbox = Some \<lparr>bbox_x = 10, bbox_y = 20, bbox_w = 100, bbox_h = 50\<rparr>,
       ii_base64 = Some [0xFF, 0xD8, 1], ii_mimeType = Some (ascii ''image/jpeg''),
       ii_path = None\<rparr>,
      \<lparr>ii_page = 1, ii_imageIndex = 2, ii_width = 60, ii_height = 40,
       ii_format = ascii ''jpeg'', ii_type = Some (ascii ''embedded''),
       ii_bbox = Some \<lparr>bbox_x = 200, bbox_y = 300, bbox_w = 60, bbox_h = 40\<rparr>,
       ii_base64 = Some [0xFF, 0xD8, 2], ii_mimeType = Some (ascii ''image/jpeg''),
       ii_path = None\<rparr>,
      \<lparr>ii_page = 2, ii_imageIndex = 0, ii_width = 1275, ii_height = 1650,
       ii_format = ascii ''jpeg'', ii_type = None, ii_bbox = None,
       ii_base64 = Some [0xFF, 0xD8, 8], ii_mimeType = Some (ascii ''image/jpeg''),
       ii_path = None\<rparr>]"

text \<open>What \<open>extractText\<close> returns on the sample document.\<close>

definition sample_text_result :: text_result where
  "sample_text_result =
     \<lparr>tr_file = sample_path, tr_totalPages = 2, tr_metadata = null_metadata,
      tr_pages = [\<lparr>pt_page = 1, pt_text = ascii ''Hello world''\<rparr>,
                  \<lparr>pt_page = 2, pt_text = []\<rparr>]\<rparr>"

section \<open>Basic facts\<close>

lemma fsys_emit [simp]: "fsys (emit e w) = fsys w"
  by (simp add: emit_def)

lemma trace_emit [simp]: "trace (emit e w) = trace w @ [e]"
  by (simp add: emit_def)

subsection \<open>Trimming\<close>

lemma trim_decomp:
  "\<exists>a b. s = a @ trim s @ b \<and> list_all isWhiteSpace a \<and> list_all isWhiteSpace b"
proof -
  let ?t = "dropWhile isWhiteSpace s"
  let ?u = "dropWhile isWhiteSpace (rev ?t)"
  have s: "s = takeWhile isWhiteSpace s @ ?t" by simp
  have "rev (takeWhile isWhiteSpace (rev ?t) @ ?u) = ?t"
    by (simp only: takeWhile_dropWhile_id rev_rev_ident)
  then have t: "?t = rev ?u @ rev (takeWhile isWhiteSpace (rev ?t))"
    by (simp only: rev_append)
  have a: "list_all isWhiteSpace (takeWhile isWhiteSpace s)"
    by (simp add: list_all_iff) (meson set_takeWhileD)
  have b: "list_all isWhiteSpace (rev (takeWhile isWhiteSpace (rev ?t)))"
    by (simp add: list_all_iff) (meson set_takeWhileD)
  have "s = takeWhile isWhiteSpace s @ trim s @ rev (takeWhile isWhiteSpace (rev ?t))"
    unfolding trim_def using s t by metis
  with a b show ?thesis by blast
qed

lemma trimmed_trim: "trimmed (trim s)"
proof (cases "trim s = []")
  case True
  then show ?thesis by (simp add: trimmed_def)
next
  case False
  let ?t = "dropWhile isWhiteSpace s"
  let ?u = "dropWhile isWhiteSpace (rev ?t)"
  from False have u: "?u \<noteq> []" by (simp add: trim_def)
  then have hu: "\<not> isWhiteSpace (hd ?u)" by (rule hd_dropWhile)
  have t: "?t \<noteq> []"
  proof
    assume "?t = []"
    then have "?u = []" by (simp only: rev.simps dropWhile.simps)
    with u show False by contradiction
  qed
  then have ht: "\<not> isWhiteSpace (hd ?t)" by (rule hd_dropWhile)
  have "rev ?t = takeWhile isWhiteSpace (rev ?t) @ ?u" by simp
  then have "last (rev ?t) = last ?u" using u by (metis last_appendR)
  then have "last ?u = hd ?t" using t by (simp add: last_rev)
  then have "hd (trim s) = hd ?t" using u by (simp add: trim_def hd_rev)
  moreover have "last (trim s) = hd ?u" using u by (simp add: trim_def last_rev)
  ultimately show ?thesis using hu ht by (simp add: trimmed_def)
qed

subsection \<open>The page loop of extractText\<close>

lemma text_loop_pages:
  "text_loop doc n i pages w = (Inr pages', w') \<Longrightarrow> i \<le> n \<Longrightarrow>
   \<exists>new. pages' = pages @ new \<and> map pt_page new = [i + 1..<n + 1] \<and>
     (\<forall>j<n - i. \<exists>page t. loadPage doc (i + j) = Inr page \<and> asText page = Inr t \<and>
        pt_text (new ! j) = trim t)"
proof (induction doc n i pages w rule: text_loop.induct)
  case (1 doc totalPages i pages w)
  show ?case
  proof (cases "i < totalPages")
    case False
    with "1.prems" show ?thesis by (simp add: text_loop.simps)
  next
    case True
    from "1.prems"(1) True obtain page t where
      lp: "loadPage doc i = Inr page" and at: "asText page = Inr t" and
      rec: "text_loop doc totalPages (i + 1)
              (pages @ [\<lparr>pt_page = i + 1, pt_text = trim t\<rparr>])
              (emit (PdfAdapter (PageAsText i)) (emit (PdfAdapter (LoadPage i)) w)) = (Inr pages', w')"
      by (subst (asm) text_loop.simps) (auto simp: Let_def split: sum.splits)
    from "1.IH"[OF True refl lp refl at rec] True
    obtain new where new: "pages' = (pages @ [\<lparr>pt_page = i + 1, pt_text = trim t\<rparr>]) @ new"
      "map pt_page new = [i + 1 + 1..<totalPages + 1]"
      "\<forall>j<totalPages - (i + 1). \<exists>page t. loadPage doc (i + 1 + j) = Inr page \<and> asText page = Inr t \<and>
        pt_text (new ! j) = trim t"
      by auto
    let ?new = "\<lparr>pt_page = i + 1, pt_text = trim t\<rparr> # new"
    have "pages' = pages @ ?new" using new(1) by simp
    moreover have "map pt_page ?new = [i + 1..<totalPages + 1]"
      using new(2) True by (simp add: upt_conv_Cons)
    moreover have "\<forall>j<totalPages - i. \<exists>page t. loadPage doc (i + j) = Inr page \<and> asText page = Inr t \<and>
        pt_text (?new ! j) = trim t"
    proof (intro allI impI)
      fix j assume j: "j < totalPages - i"
      show "\<exists>page t. loadPage doc (i + j) = Inr page \<and> asText page = Inr t \<and>
        pt_text (?new ! j) = trim t"
      proof (cases j)
        case 0
        then show ?thesis using lp at by simp
      next
        case (Suc k)
        with j have "k < totalPages - (i + 1)" by simp
        with new(3) Suc show ?thesis by simp
      qed
    qed
    ultimately show ?thesis by blast
  qed
qed

lemma text_loop_returns:
  "list_all (\<lambda>i. case loadPage doc i of
                      Inl e \<Rightarrow> False
                    | Inr page \<Rightarrow> (case asText page of Inl e \<Rightarrow> False | Inr t \<Rightarrow> True))
       [i..<n] \<Longrightarrow> \<exists>pages' w'. text_loop doc n i pages w = (Inr pages', w')"
proof (induction doc n i pages w rule: text_loop.induct)
  case (1 doc totalPages i pages w)
  show ?case
  proof (cases "i < totalPages")
    case False
    then show ?thesis by (simp add: text_loop.simps)
  next
    case True
    with "1.prems" obtain page t where lp: "loadPage doc i = Inr page" and at: "asText page = Inr t"
      and rest: "list_all (\<lambda>i. case loadPage doc i of
                      Inl e \<Rightarrow> False
                    | Inr page \<Rightarrow> (case asText page of Inl e \<Rightarrow> False | Inr t \<Rightarrow> True))
       [i + 1..<totalPages]"
      by (auto simp: upt_conv_Cons split: sum.splits)
    from "1.IH"[OF True refl lp refl at rest] show ?thesis
      using True lp at by (subst text_loop.simps) (simp add: Let_def)
  qed
qed

lemma sample_valid: "valid_pdf sample_env (fsys sample_world) sample_path sample_bytes sample_doc"
  by (simp add: valid_pdf_def sample_env_def sample_world_def sample_fs_def)

lemma sample_text_ok: "text_pages_ok sample_doc"
  by (simp add: text_pages_ok_def sample_doc_def sample_page1_def sample_page2_def upt_rec)

section \<open>Claims about extractText\<close>

text \<open>
  C1. For every valid PDF (the file exists and can be read, the adapter opens it, and every
  page loads and yields its text), \<open>extractText\<close> returns a result with exactly one entry
  per page: the page numbers are \<open>1, 2, ..., totalPages\<close> in this order, and the text of
  each entry is the adapter's text of that page, trimmed, so it neither starts nor ends
  with white space.
\<close>

theorem extractText_pages:
  assumes "valid_pdf env (fsys w) pdfPath dataBuffer doc" and "text_pages_ok doc"
  shows "\<exists>r w'. extractText env w pdfPath = (Inr r, w') \<and>
           tr_totalPages r = countPages doc \<and>
           length (tr_pages r) = countPages doc \<and>
           map pt_page (tr_pages r) = [1..<countPages doc + 1] \<and>
           (\<forall>i<countPages doc. \<exists>page t. loadPage doc i = Inr page \<and> asText page = Inr t \<and>
              pt_text (tr_pages r ! i) = trim t \<and> trimmed (pt_text (tr_pages r ! i)))"
proof -
  from assms(2) obtain pages w1 where
    loop: "text_loop doc (countPages doc) 0 []
             (emit (PdfAdapter CountPages) (emit (PdfAdapter OpenDocument)
               (emit MetadataAdapter (emit (ReadFileSync (path_resolve env pdfPath))
                 (emit (ExistsSync (path_resolve env pdfPath)) w))))) = (Inr pages, w1)"
    unfolding text_pages_ok_def using text_loop_returns by blast
  from text_loop_pages[OF loop] have
    pg: "map pt_page pages = [1..<countPages doc + 1]" and
    tx: "\<forall>j<countPages doc. \<exists>page t. loadPage doc j = Inr page \<and> asText page = Inr t \<and>
        pt_text (pages ! j) = trim t"
    by auto
  from pg have len: "length pages = countPages doc"
    by (metis length_map length_upt add_diff_cancel_right')
  have "\<exists>m. extractText env w pdfPath =
      (Inr \<lparr>tr_file = path_resolve env pdfPath, tr_totalPages = countPages doc,
            tr_metadata = m, tr_pages = pages\<rparr>, w1)"
    using assms(1) loop
    by (simp add: extractText_def extractText_head_def extractText_tail_def valid_pdf_def Let_def)
  then show ?thesis using pg tx len trimmed_trim by fastforce
qed

theorem extractText_pages_witness:
  "valid_pdf sample_env (fsys sample_world) sample_path sample_bytes sample_doc \<and>
   text_pages_ok sample_doc \<and>
   (\<exists>r w'. extractText sample_env sample_world sample_path = (Inr r, w') \<and>
           tr_totalPages r = countPages sample_doc \<and>
           length (tr_pages r) = countPages sample_doc \<and>
           map pt_page (tr_pages r) = [1..<countPages sample_doc + 1] \<and>
           (\<forall>i<countPages sample_doc. \<exists>page t.
              loadPage sample_doc i = Inr page \<and> asText page = Inr t \<and>
              pt_text (tr_pages r ! i) = trim t \<and> trimmed (pt_text (tr_pages r ! i))))"
  using extractText_pages [OF sample_valid sample_text_ok] sample_valid sample_text_ok
  by blast

text \<open>
  C4. When the Metadata Adapter fails on a valid PDF, \<open>extractText\<close> still returns a
  result, and every field of its metadata is \<open>null\<close>.
\<close>

theorem metadata_failure_is_absorbed:
  assumes "valid_pdf env (fsys w) pdfPath dataBuffer doc" and "text_pages_ok doc"
    and "metadata_fails (PDFParse env dataBuffer)"
  shows "\<exists>r w'. extractText env w pdfPath = (Inr r, w') \<and> tr_metadata r = null_metadata"
proof -
  from extractText_pages [OF assms(1,2)] obtain r w' where
    r: "extractText env w pdfPath = (Inr r, w')" by blast
  from assms(3) have "metadata_of (PDFParse env dataBuffer) = empty_info"
    by (cases "PDFParse env dataBuffer") simp_all
  with r assms(1) have "tr_metadata r = null_metadata"
    by (auto simp: extractText_def extractText_head_def extractText_tail_def valid_pdf_def
          Let_def empty_info_def null_metadata_def split: sum.splits prod.splits)
  with r show ?thesis by blast
qed

lemma sample_metadata_fails: "metadata_fails (PDFParse sample_env sample_bytes)"
  by (simp add: sample_env_def)

theorem metadata_failure_is_absorbed_witness:
  "valid_pdf sample_env (fsys sample_world) sample_path sample_bytes sample_doc \<and>
   text_pages_ok sample_doc \<and>
   metadata_fails (PDFParse sample_env sample_bytes) \<and>
   (\<exists>r w'. extractText sample_env sample_world sample_path = (Inr r, w') \<and>
      tr_metadata r = null_metadata)"
  using metadata_failure_is_absorbed [OF sample_valid sample_text_ok sample_metadata_fails]
    sample_valid sample_text_ok sample_metadata_fails
  by blast

subsection \<open>Delivery of one image\<close>

lemma writes_emit [simp]: "writes (emit e w) = writes w @ (if is_fs_write e then [e] else [])"
  by (simp add: writes_def)

lemma writes_fsys_update [simp]: "writes (w\<lparr>fsys := fs\<rparr>) = writes w"
  by (simp add: writes_def)

lemma deliver_cases:
  assumes "deliver env opts fileName imgBuffer info w = (Inr info', w')"
  shows "(eo_returnBase64 opts \<and> w' = w \<and>
          info' = info\<lparr>ii_base64 := Some (toBase64 env imgBuffer),
                        ii_mimeType := Some (mimeType_of (eo_format opts))\<rparr>) \<or>
         (\<not> eo_returnBase64 opts \<and>
          (\<exists>dir. eo_outputDir opts = Str dir \<and>
                 info' = info\<lparr>ii_path := Some (path_join env dir fileName)\<rparr>))"
  using assms
  by (auto simp: deliver_def Let_def split: if_splits js_path.splits prod.splits option.splits)

lemma deliver_inline:
  "eo_returnBase64 opts \<Longrightarrow> snd (deliver env opts fileName imgBuffer info w) = w"
  by (simp add: deliver_def)

lemma deliver_succeeds:
  assumes "eo_returnBase64 opts \<or> (eo_outputDir opts \<noteq> Null \<and> eo_outputDir opts \<noteq> Undefined \<and> writes_succeed env)"
  shows "\<exists>info' w'. deliver env opts fileName imgBuffer info w = (Inr info', w')"
proof (cases "eo_returnBase64 opts")
  case True
  then show ?thesis by (simp add: deliver_def)
next
  case False
  with assms obtain dir where dir: "eo_outputDir opts = Str dir" and ws: "writes_succeed env"
    by (cases "eo_outputDir opts") auto
  from ws have "fst (fs_writeFileSync env (fsys w) (path_join env dir fileName) imgBuffer) = None"
    by (simp add: writes_succeed_def)
  with False dir show ?thesis
    by (auto simp: deliver_def Let_def split: prod.splits option.splits)
qed

lemma deliver_delivered:
  assumes "deliver env opts fileName imgBuffer info w = (Inr info', w')"
    and "ii_base64 info = None" "ii_mimeType info = None" "ii_path info = None"
  shows "delivered opts info'"
  using deliver_cases [OF assms(1)] assms(2-) by (auto simp: delivered_def)

lemma deliver_fields:
  assumes "deliver env opts fileName imgBuffer info w = (Inr info', w')"
  shows "ii_page info' = ii_page info \<and> ii_imageIndex info' = ii_imageIndex info \<and>
         ii_type info' = ii_type info \<and> ii_width info' = ii_width info \<and>
         ii_height info' = ii_height info \<and> ii_bbox info' = ii_bbox info \<and>
         ii_format info' = ii_format info"
  using deliver_cases [OF assms] by auto

subsection \<open>The walk over the image blocks\<close>

text \<open>What \<open>onImageBlock\<close> pushes for block \<open>b\<close> when the index is \<open>k\<close>.\<close>

lemma onImageBlock_cases:
  assumes "onImageBlock env p base opts b (images, k) w = ((images', k'), w')"
  shows "(images' = images \<and> k' = k) \<or>
         (\<exists>a. images' = images @ [a] \<and> k' = k + 1 \<and> block_decodes (eo_format opts) b \<and>
              ii_page a = p + 1 \<and> ii_imageIndex a = k \<and> is_embedded a \<and> made_from a b \<and>
              delivered opts a)"
proof (cases "image_toPixmap b")
  case (Inl e)
  with assms show ?thesis by (simp add: onImageBlock_def Let_def)
next
  case pm: (Inr pixmap)
  show ?thesis
  proof (cases "encode (eo_format opts) pixmap")
    case (Inl e)
    with pm assms show ?thesis by (simp add: onImageBlock_def Let_def)
  next
    case buf: (Inr imgBuffer)
    let ?info = "\<lparr>ii_page = p + 1, ii_imageIndex = k, ii_width = getWidth pixmap,
                  ii_height = getHeight pixmap, ii_format = eo_format opts,
                  ii_type = Some (ascii ''embedded''), ii_bbox = Some (bbox_of b),
                  ii_base64 = None, ii_mimeType = None, ii_path = None\<rparr>"
    let ?d = "deliver env opts (embedded_fileName base p k (eo_format opts)) imgBuffer ?info
                (emit (PdfAdapter PixmapEncode) (emit (PdfAdapter ImageToPixmap) w))"
    obtain res v where d: "?d = (res, v)" by (cases ?d)
    show ?thesis
    proof (cases res)
      case (Inl e)
      with pm buf d assms show ?thesis by (simp add: onImageBlock_def Let_def)
    next
      case (Inr a)
      with pm buf d assms have out: "images' = images @ [a]" "k' = k + 1"
        by (simp_all add: onImageBlock_def Let_def)
      from d Inr have da: "?d = (Inr a, v)" by simp
      have "delivered opts a" by (rule deliver_delivered [OF da]) simp_all
      moreover from deliver_fields [OF da]
      have "ii_page a = p + 1" "ii_imageIndex a = k" "is_embedded a" "made_from a b"
        using pm by (simp_all add: is_embedded_def made_from_def)
      moreover have "block_decodes (eo_format opts) b"
        using pm buf by (simp add: block_decodes_def)
      ultimately show ?thesis using out by blast
    qed
  qed
qed

lemma onImageBlock_skips:
  "\<not> block_decodes (eo_format opts) b \<Longrightarrow>
   fst (onImageBlock env p base opts b (images, k) w) = (images, k)"
  by (auto simp: onImageBlock_def block_decodes_def Let_def split: sum.splits)

lemma onImageBlock_pushes:
  assumes "block_decodes (eo_format opts) b"
    and "eo_returnBase64 opts \<or> (eo_outputDir opts \<noteq> Null \<and> eo_outputDir opts \<noteq> Undefined \<and> writes_succeed env)"
  shows "\<exists>a. fst (onImageBlock env p base opts b (images, k) w) = (images @ [a], k + 1)"
proof -
  from assms(1) obtain pixmap imgBuffer where
    pm: "image_toPixmap b = Inr pixmap" and buf: "encode (eo_format opts) pixmap = Inr imgBuffer"
    by (auto simp: block_decodes_def split: sum.splits)
  let ?info = "\<lparr>ii_page = p + 1, ii_imageIndex = k, ii_width = getWidth pixmap,
                ii_height = getHeight pixmap, ii_format = eo_format opts,
                ii_type = Some (ascii ''embedded''), ii_bbox = Some (bbox_of b),
                ii_base64 = None, ii_mimeType = None, ii_path = None\<rparr>"
  from deliver_succeeds [OF assms(2)] obtain a v where
    "deliver env opts (embedded_fileName base p k (eo_format opts)) imgBuffer ?info
       (emit (PdfAdapter PixmapEncode) (emit (PdfAdapter ImageToPixmap) w)) = (Inr a, v)"
    by blast
  with pm buf show ?thesis by (simp add: onImageBlock_def Let_def)
qed
lemma walk_shape:
  "walk env p base opts bs (images, k) w = ((images', k'), w') \<Longrightarrow>
   \<exists>new. images' = images @ new \<and> k' = k + length new \<and>
     map ii_imageIndex new = [k..<k + length new] \<and>
     list_all (\<lambda>a. ii_page a = p + 1 \<and> is_embedded a \<and> delivered opts a) new"
proof (induction bs arbitrary: images k w)
  case Nil
  then show ?case by simp
next
  case (Cons b bs)
  obtain images1 k1 w1 where
    step: "onImageBlock env p base opts b (images, k) w = ((images1, k1), w1)"
    by (metis surj_pair)
  with Cons.prems have rest: "walk env p base opts bs (images1, k1) w1 = ((images', k'), w')"
    by simp
  from Cons.IH [OF rest] obtain new where new:
    "images' = images1 @ new" "k' = k1 + length new"
    "map ii_imageIndex new = [k1..<k1 + length new]"
    "list_all (\<lambda>a. ii_page a = p + 1 \<and> is_embedded a \<and> delivered opts a) new"
    by blast
  from onImageBlock_cases [OF step] show ?case
  proof
    assume "images1 = images \<and> k1 = k"
    with new show ?thesis by blast
  next
    assume "\<exists>a. images1 = images @ [a] \<and> k1 = k + 1 \<and> block_decodes (eo_format opts) b \<and>
              ii_page a = p + 1 \<and> ii_imageIndex a = k \<and> is_embedded a \<and> made_from a b \<and>
              delivered opts a"
    then obtain a where a: "images1 = images @ [a]" "k1 = k + 1" "ii_page a = p + 1"
      "ii_imageIndex a = k" "is_embedded a" "delivered opts a"
      by blast
    have "images' = images @ (a # new)" using new(1) a(1) by simp
    moreover have "k' = k + length (a # new)" using new(2) a(2) by simp
    moreover have "[k..<k + length (a # new)] = k # [k1..<k1 + length new]"
      unfolding a(2) by (subst upt_conv_Cons) simp_all
    then have "map ii_imageIndex (a # new) = [k..<k + length (a # new)]"
      using new(3) a(4) by (simp only: list.map)
    moreover have "list_all (\<lambda>a. ii_page a = p + 1 \<and> is_embedded a \<and> delivered opts a) (a # new)"
      using new(4) a(3,5,6) by simp
    ultimately show ?thesis by blast
  qed
qed

lemma walk_exact:
  assumes ok: "eo_returnBase64 opts \<or>
               (eo_outputDir opts \<noteq> Null \<and> eo_outputDir opts \<noteq> Undefined \<and> writes_succeed env)"
  shows "walk env p base opts bs (images, k) w = ((images', k'), w') \<Longrightarrow>
         \<exists>new. images' = images @ new \<and>
               list_all2 made_from new (filter (block_decodes (eo_format opts)) bs)"
proof (induction bs arbitrary: images k w)
  case Nil
  then show ?case by simp
next
  case (Cons b bs)
  obtain images1 k1 w1 where
    step: "onImageBlock env p base opts b (images, k) w = ((images1, k1), w1)"
    by (metis surj_pair)
  with Cons.prems have rest: "walk env p base opts bs (images1, k1) w1 = ((images', k'), w')"
    by simp
  from Cons.IH [OF rest] obtain new where new:
    "images' = images1 @ new"
    "list_all2 made_from new (filter (block_decodes (eo_format opts)) bs)"
    by blast
  show ?case
  proof (cases "block_decodes (eo_format opts) b")
    case False
    from onImageBlock_skips [OF False, of env p base images k w] step
    have "images1 = images" by simp
    with new False show ?thesis by auto
  next
    case True
    from onImageBlock_pushes [OF True ok, of p base images k w] step
    obtain a where a: "images1 = images @ [a]" "k1 = k + 1" by auto
    from onImageBlock_cases [OF step] a have "made_from a b" by auto
    with new a True have "images' = images @ (a # new)"
      "list_all2 made_from (a # new) (filter (block_decodes (eo_format opts)) (b # bs))"
      by simp_all
    then show ?thesis by blast
  qed
qed

subsection \<open>The entries of one page\<close>

lemma extractEmbeddedImages_shape:
  assumes "extractEmbeddedImages env page p base opts w = (Inr embedded, w')"
  shows "map ii_imageIndex embedded = [1..<1 + length embedded] \<and>
         list_all (\<lambda>a. ii_page a = p + 1 \<and> is_embedded a \<and> delivered opts a) embedded"
proof -
  from assms obtain st k v where st: "toStructuredText_images page = Inr st" and
    wk: "walk env p base opts (imageBlocks st) ([], 1)
           (emit (PdfAdapter (PageStructuredImages p)) w) = ((embedded, k), v)"
    by (auto simp: extractEmbeddedImages_def Let_def split: sum.splits prod.splits option.splits)
  from walk_shape [OF wk] show ?thesis by auto
qed

lemma extractEmbeddedImages_exact:
  assumes "extractEmbeddedImages env page p base opts w = (res, w')"
    and "toStructuredText_images page = Inr st" and "walkThrows st = None"
    and "eo_returnBase64 opts \<or>
         (eo_outputDir opts \<noteq> Null \<and> eo_outputDir opts \<noteq> Undefined \<and> writes_succeed env)"
  shows "\<exists>embedded. res = Inr embedded \<and>
           list_all2 made_from embedded (filter (block_decodes (eo_format opts)) (imageBlocks st))"
proof -
  obtain embedded k v where
    wk: "walk env p base opts (imageBlocks st) ([], 1)
           (emit (PdfAdapter (PageStructuredImages p)) w) = ((embedded, k), v)"
    by (metis surj_pair)
  with assms(1-3) have "res = Inr embedded"
    by (simp add: extractEmbeddedImages_def Let_def)
  moreover from walk_exact [OF assms(4) wk]
  have "list_all2 made_from embedded (filter (block_decodes (eo_format opts)) (imageBlocks st))"
    by simp
  ultimately show ?thesis by blast
qed

text \<open>
  A page that returns: its render first, then the embedded images that
  \<open>extractEmbeddedImages\<close> returned, or none when that call threw.
\<close>

lemma image_page_cases:
  assumes "image_page env doc base scale opts i w = (Inr g, w')"
  shows "\<exists>page pixmap render v res.
           loadPage doc i = Inr page \<and> page_toPixmap page scale = Inr pixmap \<and>
           ii_page render = i + 1 \<and> ii_imageIndex render = 0 \<and> ii_type render = None \<and>
           ii_width render = getWidth pixmap \<and> ii_height render = getHeight pixmap \<and>
           delivered opts render \<and>
           extractEmbeddedImages env page i base opts v = (res, w') \<and>
           g = render # (case res of Inl e \<Rightarrow> [] | Inr embedded \<Rightarrow> embedded)"
proof -
  from assms obtain page where page: "loadPage doc i = Inr page"
    by (auto simp: image_page_def Let_def split: sum.splits)
  from assms page obtain pixmap where pm: "page_toPixmap page scale = Inr pixmap"
    by (auto simp: image_page_def Let_def split: sum.splits)
  from assms page pm obtain imgBuffer where buf: "encode (eo_format opts) pixmap = Inr imgBuffer"
    by (auto simp: image_page_def Let_def split: sum.splits)
  let ?info = "\<lparr>ii_page = i + 1, ii_imageIndex = 0, ii_width = getWidth pixmap,
                ii_height = getHeight pixmap, ii_format = eo_format opts, ii_type = None,
                ii_bbox = None, ii_base64 = None, ii_mimeType = None, ii_path = None\<rparr>"
  let ?d = "deliver env opts (page_fileName base i (eo_format opts)) imgBuffer ?info
              (emit (PdfAdapter PixmapEncode) (emit (PdfAdapter (PageToPixmap i))
                (emit (PdfAdapter (LoadPage i)) w)))"
  from assms page pm buf obtain render v where d: "?d = (Inr render, v)"
    by (auto simp: image_page_def Let_def split: sum.splits prod.splits)
  obtain res v' where e: "extractEmbeddedImages env page i base opts v = (res, v')"
    by (cases "extractEmbeddedImages env page i base opts v")
  from assms page pm buf d e have g: "g = render # (case res of Inl e \<Rightarrow> [] | Inr embedded \<Rightarrow> embedded)"
    and w': "v' = w'"
    by (auto simp: image_page_def Let_def split: sum.splits)
  have "delivered opts render" by (rule deliver_delivered [OF d]) simp_all
  moreover from deliver_fields [OF d]
  have "ii_page render = i + 1" "ii_imageIndex render = 0" "ii_type render = None"
    "ii_width render = getWidth pixmap" "ii_height render = getHeight pixmap"
    by simp_all
  ultimately show ?thesis using page pm e g w' by blast
qed
lemma image_page_group:
  assumes "image_page env doc base scale opts i w = (Inr g, w')"
  shows "page_group i g \<and> list_all (delivered opts) g"
proof -
  from image_page_cases [OF assms] obtain page render v res where
    r: "ii_page render = i + 1" "ii_imageIndex render = 0" "ii_type render = None"
       "delivered opts render" and
    e: "extractEmbeddedImages env page i base opts v = (res, w')" and
    g: "g = render # (case res of Inl e \<Rightarrow> [] | Inr embedded \<Rightarrow> embedded)"
    by blast
  show ?thesis
  proof (cases res)
    case (Inl err)
    with g r show ?thesis by (simp add: page_group_def is_page_render_def)
  next
    case (Inr embedded)
    with e have "extractEmbeddedImages env page i base opts v = (Inr embedded, w')" by simp
    from extractEmbeddedImages_shape [OF this] have
      idx: "map ii_imageIndex embedded = [1..<1 + length embedded]" and
      all: "list_all (\<lambda>a. ii_page a = i + 1 \<and> is_embedded a \<and> delivered opts a) embedded"
      by simp_all
    from idx have idx': "map ii_imageIndex embedded = [Suc 0..<Suc (length embedded)]"
      by (simp only: One_nat_def add_Suc add_0)
    from all have "\<forall>a\<in>set embedded. (ii_page a, ii_imageIndex a) = (i + 1, ii_imageIndex a)"
      by (simp add: list_all_iff)
    then have "map (\<lambda>a. (ii_page a, ii_imageIndex a)) embedded =
               map (\<lambda>a. (i + 1, ii_imageIndex a)) embedded"
      by (intro map_cong) simp_all
    also have "\<dots> = map (\<lambda>k. (i + 1, k)) (map ii_imageIndex embedded)"
      by (simp add: o_def)
    finally have keys: "map (\<lambda>a. (ii_page a, ii_imageIndex a)) embedded =
                        map (\<lambda>k. (i + 1, k)) [Suc 0..<Suc (length embedded)]"
      by (simp only: idx')
    have "0 < Suc (length embedded)" by simp
    then have "[0..<Suc (length embedded)] = 0 # [Suc 0..<Suc (length embedded)]"
      by (rule upt_conv_Cons)
    moreover have "length g = Suc (length embedded)" using g Inr by simp
    moreover have "map (\<lambda>a. (ii_page a, ii_imageIndex a)) g =
                   (i + 1, 0) # map (\<lambda>a. (ii_page a, ii_imageIndex a)) embedded"
      using g Inr r by simp
    ultimately have "map (\<lambda>a. (ii_page a, ii_imageIndex a)) g =
                     map (\<lambda>k. (i + 1, k)) [0..<length g]"
      using keys by (simp only: list.map)
    moreover from all have "list_all is_embedded embedded" "list_all (delivered opts) embedded"
      by (simp_all add: list_all_iff)
    ultimately show ?thesis
      using g Inr r by (simp add: page_group_def is_page_render_def)
  qed
qed

subsection \<open>The page loop of extractImages\<close>

lemma image_loop_groups:
  "image_loop env doc base scale opts n i images w = (Inr images', w') \<Longrightarrow>
   \<exists>groups. images' = images @ concat groups \<and> length groups = n - i \<and>
     (\<forall>j<n - i. \<exists>v v'. image_page env doc base scale opts (i + j) v = (Inr (groups ! j), v'))"
proof (induction env doc base scale opts n i images w rule: image_loop.induct)
  case (1 env doc base scale opts n i images w)
  show ?case
  proof (cases "i < n")
    case False
    with "1.prems" show ?thesis by (simp add: image_loop.simps)
  next
    case True
    from "1.prems" True obtain g w1 where
      pg: "image_page env doc base scale opts i w = (Inr g, w1)" and
      rec: "image_loop env doc base scale opts n (i + 1) (images @ g) w1 = (Inr images', w')"
      by (subst (asm) image_loop.simps) (auto split: sum.splits prod.splits)
    from "1.IH" [OF True pg [symmetric] refl rec] obtain groups where gs:
      "images' = (images @ g) @ concat groups" "length groups = n - (i + 1)"
      "\<forall>j<n - (i + 1). \<exists>v v'.
          image_page env doc base scale opts (i + 1 + j) v = (Inr (groups ! j), v')"
      by blast
    have "images' = images @ concat (g # groups)" using gs(1) by simp
    moreover have "length (g # groups) = n - i" using gs(2) True by simp
    moreover have "\<forall>j<n - i. \<exists>v v'.
        image_page env doc base scale opts (i + j) v = (Inr ((g # groups) ! j), v')"
    proof (intro allI impI)
      fix j assume j: "j < n - i"
      show "\<exists>v v'. image_page env doc base scale opts (i + j) v = (Inr ((g # groups) ! j), v')"
      proof (cases j)
        case 0
        with pg show ?thesis by auto
      next
        case (Suc j')
        with j have "j' < n - (i + 1)" by simp
        with gs(3) Suc show ?thesis by simp
      qed
    qed
    ultimately show ?thesis by blast
  qed
qed

lemma extractImages_groups:
  assumes "extractImages env w pdfPath options = (Inr r, w')"
  shows "\<exists>dataBuffer doc groups.
           valid_pdf env (fsys w) pdfPath dataBuffer doc \<and>
           ir_file r = path_resolve env pdfPath \<and>
           ir_totalPages r = countPages doc \<and>
           ir_totalImages r = length (ir_images r) \<and>
           ir_images r = concat groups \<and> length groups = countPages doc \<and>
           (\<forall>j<countPages doc. \<exists>v v'.
              image_page env doc (base_name env pdfPath) (requested_scale options)
                (embed_options_of env pdfPath options) j v = (Inr (groups ! j), v'))"
proof -
  let ?abs = "path_resolve env pdfPath"
  from assms have ex: "fs_existsSync env (fsys w) ?abs"
    by (auto simp: extractImages_def Let_def split: if_splits)
  from assms ex obtain dataBuffer where rd: "fs_readFileSync env (fsys w) ?abs = Inr dataBuffer"
    by (auto simp: extractImages_def Let_def split: sum.splits)
  from assms ex rd obtain doc where op: "openDocument env dataBuffer = Inr doc"
    by (auto simp: extractImages_def Let_def split: sum.splits)
  let ?opts = "embed_options_of env pdfPath options"
  from assms ex rd op obtain v images where
    loop: "image_loop env doc (base_name env pdfPath) (requested_scale options) ?opts
             (countPages doc) 0 [] v = (Inr images, w')" and
    r: "r = \<lparr>ir_file = ?abs, ir_totalPages = countPages doc, ir_totalImages = length images,
             ir_images = images\<rparr>"
    by (auto simp: extractImages_def Let_def embed_options_of_def output_directory_def
          requested_format_def inline_mode_def requested_scale_def base_name_def
          split: sum.splits prod.splits option.splits if_splits)
  from image_loop_groups [OF loop] obtain groups where
    "images = concat groups" "length groups = countPages doc"
    "\<forall>j<countPages doc. \<exists>v v'.
        image_page env doc (base_name env pdfPath) (requested_scale options) ?opts j v
          = (Inr (groups ! j), v')"
    by auto
  with ex rd op r show ?thesis by (auto simp: valid_pdf_def)
qed

subsection \<open>Order of the entries\<close>

lemma page_group_sorted:
  assumes "page_group p g"
  shows "sorted_wrt before g" and "\<forall>a\<in>set g. ii_page a = p + 1"
proof -
  let ?key = "\<lambda>a. (ii_page a, ii_imageIndex a)"
  let ?lt = "\<lambda>x y :: nat \<times> nat. fst x < fst y \<or> (fst x = fst y \<and> snd x < snd y)"
  from assms have keys: "map ?key g = map (\<lambda>k. (p + 1, k)) [0..<length g]"
    by (simp add: page_group_def)
  have "sorted_wrt ?lt (map (\<lambda>k. (p + 1, k)) [0..<length g])"
    by (simp add: sorted_wrt_map)
  with keys have "sorted_wrt ?lt (map ?key g)" by simp
  then have "sorted_wrt (\<lambda>a b. ?lt (?key a) (?key b)) g"
    by (simp only: sorted_wrt_map)
  moreover have "before = (\<lambda>a b. ?lt (?key a) (?key b))"
    by (simp add: fun_eq_iff before_def)
  ultimately show "sorted_wrt before g" by simp
  show "\<forall>a\<in>set g. ii_page a = p + 1"
  proof
    fix a assume "a \<in> set g"
    then have "?key a \<in> set (map ?key g)" by simp
    with keys show "ii_page a = p + 1" by auto
  qed
qed

lemma groups_sorted:
  "\<forall>j<length gs. page_group (i + j) (gs ! j) \<Longrightarrow>
   sorted_wrt before (concat gs) \<and> (\<forall>a\<in>set (concat gs). i < ii_page a)"
proof (induction gs arbitrary: i)
  case Nil
  then show ?case by simp
next
  case (Cons g gs)
  have "0 < length (g # gs)" by simp
  with Cons.prems have "page_group (i + 0) ((g # gs) ! 0)" by blast
  then have g: "page_group i g" by simp
  have "\<forall>j<length gs. page_group (Suc i + j) (gs ! j)"
  proof (intro allI impI)
    fix j assume "j < length gs"
    then have "Suc j < length (g # gs)" by simp
    with Cons.prems have "page_group (i + Suc j) ((g # gs) ! Suc j)" by blast
    then show "page_group (Suc i + j) (gs ! j)" by simp
  qed
  from Cons.IH [OF this] have rest: "sorted_wrt before (concat gs)"
    "\<forall>a\<in>set (concat gs). Suc i < ii_page a" by simp_all
  from page_group_sorted [OF g] have here: "sorted_wrt before g" "\<forall>a\<in>set g. ii_page a = i + 1"
    by simp_all
  have cross: "\<forall>a\<in>set g. \<forall>b\<in>set (concat gs). before a b"
  proof (intro ballI)
    fix a b assume "a \<in> set g" "b \<in> set (concat gs)"
    with here(2) rest(2) have "ii_page a = i + 1" "Suc i < ii_page b" by blast+
    then show "before a b" by (simp add: before_def)
  qed
  have "sorted_wrt before (concat (g # gs))"
    using here(1) rest(1) cross by (simp only: concat.simps sorted_wrt_append)
  moreover have "\<forall>a\<in>set (concat (g # gs)). i < ii_page a"
  proof
    fix a assume "a \<in> set (concat (g # gs))"
    then have "a \<in> set g \<or> a \<in> set (concat gs)" by simp
    then show "i < ii_page a"
    proof
      assume "a \<in> set g"
      with here(2) show ?thesis by simp
    next
      assume "a \<in> set (concat gs)"
      with rest(2) have "Suc i < ii_page a" by blast
      then show ?thesis by simp
    qed
  qed
  ultimately show ?case by blast
qed

lemma filter_page_concat:
  "\<forall>j<length gs. \<forall>a\<in>set (gs ! j). ii_page a = i + j + 1 \<Longrightarrow> p < length gs \<Longrightarrow>
   filter (\<lambda>a. ii_page a = i + p + 1) (concat gs) = gs ! p"
proof (induction gs arbitrary: i p)
  case Nil
  then show ?case by simp
next
  case (Cons g gs)
  have g: "\<forall>a\<in>set g. ii_page a = i + 1"
  proof
    fix a assume "a \<in> set g"
    then have "0 < length (g # gs)" "a \<in> set ((g # gs) ! 0)" by simp_all
    with Cons.prems(1) have "ii_page a = i + 0 + 1" by blast
    then show "ii_page a = i + 1" by simp
  qed
  have rest: "\<forall>j<length gs. \<forall>a\<in>set (gs ! j). ii_page a = Suc i + j + 1"
  proof (intro allI impI ballI)
    fix j a assume "j < length gs" "a \<in> set (gs ! j)"
    then have "Suc j < length (g # gs)" "a \<in> set ((g # gs) ! Suc j)" by simp_all
    with Cons.prems(1) have "ii_page a = i + Suc j + 1" by blast
    then show "ii_page a = Suc i + j + 1" by simp
  qed
  show ?case
  proof (cases p)
    case 0
    have "\<forall>a\<in>set (concat gs). ii_page a \<noteq> i + 1"
    proof
      fix a assume "a \<in> set (concat gs)"
      then obtain y where "y \<in> set gs" "a \<in> set y" by auto
      then obtain j where "j < length gs" "a \<in> set (gs ! j)"
        by (auto simp: in_set_conv_nth)
      with rest have "ii_page a = Suc i + j + 1" by blast
      then show "ii_page a \<noteq> i + 1" by simp
    qed
    then have "filter (\<lambda>a. ii_page a = i + 1) (concat gs) = []"
      by (simp add: filter_empty_conv)
    moreover from g have "filter (\<lambda>a. ii_page a = i + 1) g = g"
      by (simp add: filter_id_conv)
    ultimately show ?thesis using 0 by simp
  next
    case (Suc p')
    with Cons.prems(2) have p': "p' < length gs" by simp
    from Cons.IH [OF rest p'] have "filter (\<lambda>a. ii_page a = Suc i + p' + 1) (concat gs) = gs ! p'" .
    moreover from g have "filter (\<lambda>a. ii_page a = Suc i + p' + 1) g = []"
      by (simp add: filter_empty_conv)
    ultimately show ?thesis using Suc by simp
  qed
qed
subsection \<open>When extractImages returns\<close>

lemma delivery_succeeds_opts:
  assumes "delivery_succeeds env options"
  shows "eo_returnBase64 (embed_options_of env pdfPath options) \<or>
         (eo_outputDir (embed_options_of env pdfPath options) \<noteq> Null \<and>
          eo_outputDir (embed_options_of env pdfPath options) \<noteq> Undefined \<and>
          writes_succeed env)"
  using assms
  by (auto simp: delivery_succeeds_def embed_options_of_def output_directory_def
        split: js_path.splits)

lemma eo_format_of: "eo_format (embed_options_of env pdfPath options) = requested_format options"
  by (simp add: embed_options_of_def)

lemma image_page_returns:
  assumes "loadPage doc i = Inr page" "page_toPixmap page scale = Inr pixmap"
    "encode (eo_format opts) pixmap = Inr imgBuffer"
    and ok: "eo_returnBase64 opts \<or>
         (eo_outputDir opts \<noteq> Null \<and> eo_outputDir opts \<noteq> Undefined \<and> writes_succeed env)"
  shows "\<exists>g w'. image_page env doc base scale opts i w = (Inr g, w')"
proof -
  let ?info = "\<lparr>ii_page = i + 1, ii_imageIndex = 0, ii_width = getWidth pixmap,
                ii_height = getHeight pixmap, ii_format = eo_format opts, ii_type = None,
                ii_bbox = None, ii_base64 = None, ii_mimeType = None, ii_path = None\<rparr>"
  from deliver_succeeds [OF ok] obtain render v where
    d: "deliver env opts (page_fileName base i (eo_format opts)) imgBuffer ?info
          (emit (PdfAdapter PixmapEncode) (emit (PdfAdapter (PageToPixmap i))
            (emit (PdfAdapter (LoadPage i)) w))) = (Inr render, v)"
    by blast
  obtain res v' where "extractEmbeddedImages env page i base opts v = (res, v')"
    by (cases "extractEmbeddedImages env page i base opts v")
  with assms(1-3) d show ?thesis
    by (cases res) (simp_all add: image_page_def Let_def)
qed

lemma image_loop_returns:
  "eo_returnBase64 opts \<or>
     (eo_outputDir opts \<noteq> Null \<and> eo_outputDir opts \<noteq> Undefined \<and> writes_succeed env) \<Longrightarrow>
   list_all (\<lambda>i. case loadPage doc i of
                      Inl e \<Rightarrow> False
                    | Inr page \<Rightarrow>
                        (case page_toPixmap page scale of
                           Inl e \<Rightarrow> False
                         | Inr pixmap \<Rightarrow>
                             (case encode (eo_format opts) pixmap of
                                Inl e \<Rightarrow> False | Inr b \<Rightarrow> True)))
           [i..<n] \<Longrightarrow>
   \<exists>images' w'. image_loop env doc base scale opts n i images w = (Inr images', w')"
proof (induction env doc base scale opts n i images w rule: image_loop.induct)
  case (1 env doc base scale opts n i images w)
  show ?case
  proof (cases "i < n")
    case False
    then show ?thesis by (simp add: image_loop.simps)
  next
    case True
    then have split: "[i..<n] = i # [i + 1..<n]" by (simp add: upt_conv_Cons)
    from "1.prems"(2) obtain page pixmap imgBuffer where
      "loadPage doc i = Inr page" "page_toPixmap page scale = Inr pixmap"
      "encode (eo_format opts) pixmap = Inr imgBuffer"
      unfolding split by (auto split: sum.splits)
    from image_page_returns [OF this "1.prems"(1)] obtain g w1 where
      pg: "image_page env doc base scale opts i w = (Inr g, w1)" by blast
    from "1.prems"(2) have rest: "list_all (\<lambda>i. case loadPage doc i of
                      Inl e \<Rightarrow> False
                    | Inr page \<Rightarrow>
                        (case page_toPixmap page scale of
                           Inl e \<Rightarrow> False
                         | Inr pixmap \<Rightarrow>
                             (case encode (eo_format opts) pixmap of
                                Inl e \<Rightarrow> False | Inr b \<Rightarrow> True)))
           [i + 1..<n]"
      unfolding split by simp
    from "1.IH" [OF True pg [symmetric] refl "1.prems"(1) rest] pg True show ?thesis
      by (subst image_loop.simps) simp
  qed
qed

text \<open>\<open>extractImages\<close> on a file that exists, can be read and opens.\<close>

lemma extractImages_valid:
  assumes "valid_pdf env (fsys w) pdfPath dataBuffer doc"
  shows "extractImages env w pdfPath options =
     (case (if \<not> inline_mode options
            then mkdirSync env (output_directory env pdfPath options)
                   (emit (PdfAdapter CountPages) (emit (PdfAdapter OpenDocument)
                     (emit (ReadFileSync (path_resolve env pdfPath))
                       (emit (ExistsSync (path_resolve env pdfPath)) w))))
            else (None, emit (PdfAdapter CountPages) (emit (PdfAdapter OpenDocument)
                     (emit (ReadFileSync (path_resolve env pdfPath))
                       (emit (ExistsSync (path_resolve env pdfPath)) w))))) of
        (Some e, w5) \<Rightarrow> (Inl e, w5)
      | (None, w5) \<Rightarrow>
          (case image_loop env doc (base_name env pdfPath) (requested_scale options)
                  (embed_options_of env pdfPath options) (countPages doc) 0 [] w5 of
             (Inl e, w6) \<Rightarrow> (Inl e, w6)
           | (Inr images, w6) \<Rightarrow>
               (Inr \<lparr>ir_file = path_resolve env pdfPath, ir_totalPages = countPages doc,
                     ir_totalImages = length images, ir_images = images\<rparr>, w6)))"
proof -
  have folds:
    "(case opt_base64 options of None \<Rightarrow> False | Some b \<Rightarrow> b) = inline_mode options"
    "(case opt_outputDir options of
        Undefined \<Rightarrow> Str (path_dirname env (path_resolve env pdfPath))
      | Null \<Rightarrow> Null | Str x \<Rightarrow> Str x) = output_directory env pdfPath options"
    "(case opt_format options of None \<Rightarrow> ascii ''png'' | Some f \<Rightarrow> f) =
       requested_format options"
    "js_divide (case opt_dpi options of None \<Rightarrow> Num 150 | Some d \<Rightarrow> d) 72 =
       requested_scale options"
    "path_basename env (path_resolve env pdfPath) (path_extname env (path_resolve env pdfPath)) =
       base_name env pdfPath"
    by (simp_all add: inline_mode_def output_directory_def requested_format_def
          requested_scale_def base_name_def)
  have opts: "\<lparr>eo_outputDir = output_directory env pdfPath options,
               eo_format = requested_format options,
               eo_returnBase64 = inline_mode options\<rparr> = embed_options_of env pdfPath options"
    by (simp add: embed_options_of_def)
  from assms have "fs_existsSync env (fsys w) (path_resolve env pdfPath)"
    "fs_readFileSync env (fsys w) (path_resolve env pdfPath) = Inr dataBuffer"
    "openDocument env dataBuffer = Inr doc"
    by (simp_all add: valid_pdf_def)
  then show ?thesis
    unfolding extractImages_def Let_def folds opts by simp
qed

lemma extractImages_returns:
  assumes valid: "valid_pdf env (fsys w) pdfPath dataBuffer doc"
    and render: "pages_render doc (requested_format options) (requested_scale options)"
    and deliv: "delivery_succeeds env options"
  shows "\<exists>r w'. extractImages env w pdfPath options = (Inr r, w')"
proof -
  let ?opts = "embed_options_of env pdfPath options"
  let ?w4 = "emit (PdfAdapter CountPages) (emit (PdfAdapter OpenDocument)
               (emit (ReadFileSync (path_resolve env pdfPath))
                 (emit (ExistsSync (path_resolve env pdfPath)) w)))"
  let ?mk = "if \<not> inline_mode options then mkdirSync env (output_directory env pdfPath options) ?w4
             else (None, ?w4)"
  have "\<exists>w5. ?mk = (None, w5)"
  proof (cases "inline_mode options")
    case True
    then show ?thesis by simp
  next
    case False
    with deliv have "opt_outputDir options \<noteq> Null" and ws: "writes_succeed env"
      by (simp_all add: delivery_succeeds_def)
    then obtain dir where dir: "output_directory env pdfPath options = Str dir"
      by (cases "opt_outputDir options") (simp_all add: output_directory_def)
    from ws have "fst (fs_mkdirSync env (fsys ?w4) dir) = None"
      by (simp add: writes_succeed_def)
    with False dir show ?thesis
      by (auto simp: Let_def split: prod.splits)
  qed
  then obtain w5 where mk: "?mk = (None, w5)" by blast
  from render have "list_all (\<lambda>i. case loadPage doc i of
                      Inl e \<Rightarrow> False
                    | Inr page \<Rightarrow>
                        (case page_toPixmap page (requested_scale options) of
                           Inl e \<Rightarrow> False
                         | Inr pixmap \<Rightarrow>
                             (case encode (eo_format ?opts) pixmap of
                                Inl e \<Rightarrow> False | Inr b \<Rightarrow> True)))
           [0..<countPages doc]"
    unfolding pages_render_def eo_format_of .
  from image_loop_returns [OF delivery_succeeds_opts [OF deliv] this]
  obtain images w6 where
    loop: "image_loop env doc (base_name env pdfPath) (requested_scale options) ?opts
       (countPages doc) 0 [] w5 = (Inr images, w6)"
    by blast
  show ?thesis
    unfolding extractImages_valid [OF valid] mk by (simp add: loop)
qed

lemma sample_pages_render:
  "pages_render sample_doc (requested_format options) (requested_scale options)"
  by (simp add: pages_render_def sample_doc_def sample_page1_def sample_page2_def
        sample_pixmap_def encode_def upt_rec)

lemma sample_writes_succeed: "writes_succeed sample_env"
  by (simp add: writes_succeed_def sample_env_def)

lemma sample_images_return:
  "opt_outputDir options \<noteq> Null \<Longrightarrow>
   \<exists>r w'. extractImages sample_env sample_world sample_path options = (Inr r, w')"
  by (rule extractImages_returns [OF sample_valid sample_pages_render])
     (simp add: delivery_succeeds_def sample_writes_succeed)

lemmas sample_defs =
  sample_env_def sample_world_def sample_fs_def sample_path_def sample_bytes_def
  sample_doc_def sample_page1_def sample_page2_def sample_blocks_def sample_pixmap_def
  last_component_def sample_extname_def

lemma sample_inline_run:
  "fst (extractImages sample_env sample_world sample_path inline_options) =
     Inr \<lparr>ir_file = sample_path, ir_totalPages = 2, ir_totalImages = 4,
          ir_images = sample_inline_images\<rparr>"
  by (simp add: extractImages_def image_loop.simps image_page_def extractEmbeddedImages_def
        onImageBlock_def deliver_def encode_def mimeType_of_def bbox_of_def Let_def
        inline_options_def sample_inline_images_def sample_defs ascii_def)

section \<open>Claims about extractImages\<close>

text \<open>
  C2. On a valid PDF, \<open>extractImages\<close> returns as soon as every page renders and delivery
  cannot fail; and whenever it returns, \<open>totalPages\<close> is the page count of the document and
  the images are, for each page of the document in page order, one render of that page
  with image index 0 followed by the embedded images of that page with image indices
  \<open>1, ..., N\<close>; so the whole sequence is ordered by page number and then by image index.
\<close>

theorem extractImages_order:
  assumes valid: "valid_pdf env (fsys w) pdfPath dataBuffer doc"
  shows "(pages_render doc (requested_format options) (requested_scale options) \<and>
          delivery_succeeds env options \<longrightarrow>
            (\<exists>r w'. extractImages env w pdfPath options = (Inr r, w'))) \<and>
         (\<forall>r w'. extractImages env w pdfPath options = (Inr r, w') \<longrightarrow>
            ir_totalPages r = countPages doc \<and>
            (\<exists>groups. ir_images r = concat groups \<and> length groups = countPages doc \<and>
               (\<forall>p<countPages doc.
                  page_group p (groups ! p) \<and>
                  render_of doc (requested_scale options) p (hd (groups ! p)))) \<and>
            sorted_wrt before (ir_images r))"
proof (intro conjI impI allI)
  assume "pages_render doc (requested_format options) (requested_scale options) \<and>
          delivery_succeeds env options"
  then show "\<exists>r w'. extractImages env w pdfPath options = (Inr r, w')"
    using extractImages_returns [OF valid] by blast
next
  fix r w'
  assume run: "extractImages env w pdfPath options = (Inr r, w')"
  from extractImages_groups [OF run] obtain dataBuffer' doc' groups where
    valid': "valid_pdf env (fsys w) pdfPath dataBuffer' doc'" and
    n: "ir_totalPages r = countPages doc'" and
    gs: "ir_images r = concat groups" "length groups = countPages doc'" and
    pg: "\<forall>j<countPages doc'. \<exists>v v'.
           image_page env doc' (base_name env pdfPath) (requested_scale options)
             (embed_options_of env pdfPath options) j v = (Inr (groups ! j), v')"
    by blast
  from valid valid' have doc': "doc' = doc" by (simp add: valid_pdf_def)
  have each: "page_group p (groups ! p) \<and>
              render_of doc (requested_scale options) p (hd (groups ! p))"
    if "p < countPages doc" for p
  proof -
    from that pg doc' obtain v v' where
      ip: "image_page env doc (base_name env pdfPath) (requested_scale options)
             (embed_options_of env pdfPath options) p v = (Inr (groups ! p), v')"
      by auto
    from image_page_cases [OF ip] obtain page pixmap render
      and res :: "image_info list throws" where
      "loadPage doc p = Inr page" "page_toPixmap page (requested_scale options) = Inr pixmap"
      "ii_width render = getWidth pixmap" "ii_height render = getHeight pixmap"
      "groups ! p = render # (case res of Inl e \<Rightarrow> [] | Inr embedded \<Rightarrow> embedded)"
      by (elim exE conjE)
    then have "render_of doc (requested_scale options) p (hd (groups ! p))"
      by (simp add: render_of_def)
    with image_page_group [OF ip] show ?thesis by simp
  qed
  have groups: "\<forall>p<length groups. page_group (0 + p) (groups ! p)"
    using each gs(2) doc' by simp
  from groups_sorted [OF groups] have sorted: "sorted_wrt before (concat groups)" by simp
  show "ir_totalPages r = countPages doc" using n doc' by simp
  show "\<exists>groups. ir_images r = concat groups \<and> length groups = countPages doc \<and>
          (\<forall>p<countPages doc.
             page_group p (groups ! p) \<and>
             render_of doc (requested_scale options) p (hd (groups ! p)))"
    using gs doc' each by blast
  show "sorted_wrt before (ir_images r)" using sorted gs(1) by simp
qed

theorem extractImages_order_witness:
  "valid_pdf sample_env (fsys sample_world) sample_path sample_bytes sample_doc \<and>
   pages_render sample_doc (requested_format inline_options) (requested_scale inline_options) \<and>
   delivery_succeeds sample_env inline_options \<and>
   (\<exists>w'. extractImages sample_env sample_world sample_path inline_options =
           (Inr \<lparr>ir_file = sample_path, ir_totalPages = 2, ir_totalImages = 4,
                 ir_images = sample_inline_images\<rparr>, w')) \<and>
   countPages sample_doc = 2 \<and>
   map (\<lambda>a. (ii_page a, ii_imageIndex a)) sample_inline_images =
     [(1, 0), (1, 1), (1, 2), (2, 0)] \<and>
   (\<exists>groups. sample_inline_images = concat groups \<and> length groups = 2 \<and>
      page_group 0 (groups ! 0) \<and> page_group 1 (groups ! 1) \<and>
      render_of sample_doc (requested_scale inline_options) 0 (hd (groups ! 0)) \<and>
      render_of sample_doc (requested_scale inline_options) 1 (hd (groups ! 1))) \<and>
   sorted_wrt before sample_inline_images"
proof -
  let ?r = "\<lparr>ir_file = sample_path, ir_totalPages = 2, ir_totalImages = 4,
             ir_images = sample_inline_images\<rparr>"
  have deliv: "delivery_succeeds sample_env inline_options"
    by (simp add: delivery_succeeds_def inline_mode_def inline_options_def)
  from sample_inline_run obtain w' where
    run: "extractImages sample_env sample_world sample_path inline_options = (Inr ?r, w')"
    by (cases "extractImages sample_env sample_world sample_path inline_options") simp
  have n: "countPages sample_doc = 2" by (simp add: sample_doc_def)
  have keys: "map (\<lambda>a. (ii_page a, ii_imageIndex a)) sample_inline_images =
                [(1, 0), (1, 1), (1, 2), (2, 0)]"
    by (simp add: sample_inline_images_def)
  from extractImages_order [OF sample_valid, of inline_options] run
  have shape: "\<exists>groups. ir_images ?r = concat groups \<and> length groups = countPages sample_doc \<and>
                 (\<forall>p<countPages sample_doc.
                    page_group p (groups ! p) \<and>
                    render_of sample_doc (requested_scale inline_options) p (hd (groups ! p)))"
    and sorted: "sorted_wrt before (ir_images ?r)"
    by blast+
  from shape obtain groups where g: "sample_inline_images = concat groups" "length groups = 2"
    and all: "\<forall>p<2. page_group p (groups ! p) \<and>
                render_of sample_doc (requested_scale inline_options) p (hd (groups ! p))"
    unfolding n by auto
  from all have "page_group 0 (groups ! 0)" "page_group 1 (groups ! 1)"
    "render_of sample_doc (requested_scale inline_options) 0 (hd (groups ! 0))"
    "render_of sample_doc (requested_scale inline_options) 1 (hd (groups ! 1))"
    by simp_all
  with g have "\<exists>groups. sample_inline_images = concat groups \<and> length groups = 2 \<and>
      page_group 0 (groups ! 0) \<and> page_group 1 (groups ! 1) \<and>
      render_of sample_doc (requested_scale inline_options) 0 (hd (groups ! 0)) \<and>
      render_of sample_doc (requested_scale inline_options) 1 (hd (groups ! 1))"
    by blast
  moreover from run have "\<exists>w'. extractImages sample_env sample_world sample_path inline_options =
           (Inr ?r, w')" by blast
  ultimately show ?thesis
    using sample_valid sample_pages_render [of inline_options] deliv n keys sorted
    by simp
qed

text \<open>
  C9. Every image that \<open>extractImages\<close> returns carries exactly one kind of delivery. In
  inline mode it has the base64 text and the MIME type of the requested format
  (\<open>image/jpeg\<close> for \<open>jpeg\<close>, \<open>image/png\<close> for \<open>png\<close>) and no path; otherwise it has a path and
  neither base64 text nor MIME type.
\<close>

theorem extractImages_delivery:
  assumes "extractImages env w pdfPath options = (Inr r, w')" and "a \<in> set (ir_images r)"
  shows "if inline_mode options
         then ii_base64 a \<noteq> None \<and> ii_path a = None \<and>
              ii_mimeType a = Some (mimeType_of (requested_format options)) \<and>
              mimeType_of (ascii ''jpeg'') = ascii ''image/jpeg'' \<and>
              mimeType_of (ascii ''png'') = ascii ''image/png''
         else ii_path a \<noteq> None \<and> ii_base64 a = None \<and> ii_mimeType a = None"
proof -
  from extractImages_groups [OF assms(1)] obtain doc groups where
    gs: "ir_images r = concat groups" "length groups = countPages doc" and
    pg: "\<forall>j<countPages doc. \<exists>v v'.
           image_page env doc (base_name env pdfPath) (requested_scale options)
             (embed_options_of env pdfPath options) j v = (Inr (groups ! j), v')"
    by blast
  from assms(2) gs(1) obtain g where "g \<in> set groups" "a \<in> set g" by auto
  then obtain j where j: "j < length groups" "a \<in> set (groups ! j)"
    by (auto simp: in_set_conv_nth)
  with gs(2) pg obtain v v' where
    "image_page env doc (base_name env pdfPath) (requested_scale options)
       (embed_options_of env pdfPath options) j v = (Inr (groups ! j), v')"
    by auto
  from image_page_group [OF this] j(2)
  have "delivered (embed_options_of env pdfPath options) a"
    by (simp add: list_all_iff)
  moreover have "mimeType_of (ascii ''jpeg'') = ascii ''image/jpeg''"
    "mimeType_of (ascii ''png'') = ascii ''image/png''"
    by (simp_all add: mimeType_of_def ascii_def)
  ultimately show ?thesis
    by (simp add: delivered_def embed_options_of_def)
qed
theorem extractImages_delivery_witness:
  "\<exists>w'. extractImages sample_env sample_world sample_path inline_options =
          (Inr \<lparr>ir_file = sample_path, ir_totalPages = 2, ir_totalImages = 4,
                ir_images = sample_inline_images\<rparr>, w') \<and>
        hd sample_inline_images \<in> set sample_inline_images \<and>
        ii_base64 (hd sample_inline_images) \<noteq> None \<and>
        ii_path (hd sample_inline_images) = None \<and>
        ii_mimeType (hd sample_inline_images) = Some (ascii ''image/jpeg'')"
proof -
  let ?r = "\<lparr>ir_file = sample_path, ir_totalPages = 2, ir_totalImages = 4,
             ir_images = sample_inline_images\<rparr>"
  from sample_inline_run obtain w' where
    run: "extractImages sample_env sample_world sample_path inline_options = (Inr ?r, w')"
    by (cases "extractImages sample_env sample_world sample_path inline_options") simp
  have mem: "hd sample_inline_images \<in> set (ir_images ?r)"
    by (simp add: sample_inline_images_def)
  from extractImages_delivery [OF run mem] run mem show ?thesis
    by (simp add: inline_mode_def requested_format_def inline_options_def mimeType_of_def)
qed

text \<open>
  C8. On a valid PDF whose pages all render, and when delivery cannot fail,
  \<open>extractImages\<close> returns whatever images fail to decode: the result has the render of
  every page, and for every page whose image blocks can be walked it has one embedded
  image for each block that decodes, in the order of the blocks; the blocks that fail to
  decode are skipped.
\<close>

theorem decode_failure_is_skipped:
  assumes valid: "valid_pdf env (fsys w) pdfPath dataBuffer doc"
    and render: "pages_render doc (requested_format options) (requested_scale options)"
    and deliv: "delivery_succeeds env options"
    and p: "p < countPages doc"
    and page: "loadPage doc p = Inr page" "toStructuredText_images page = Inr st"
      "walkThrows st = None"
  shows "\<exists>r w'. extractImages env w pdfPath options = (Inr r, w') \<and>
           list_all2 made_from
             (filter (\<lambda>a. ii_page a = p + 1 \<and> is_embedded a) (ir_images r))
             (filter (block_decodes (requested_format options)) (imageBlocks st)) \<and>
           (\<forall>q<countPages doc. \<exists>a\<in>set (ir_images r). ii_page a = q + 1 \<and> is_page_render a)"
proof -
  let ?opts = "embed_options_of env pdfPath options"
  from extractImages_returns [OF valid render deliv] obtain r w' where
    run: "extractImages env w pdfPath options = (Inr r, w')" by blast
  from extractImages_groups [OF run] obtain dataBuffer' doc' groups where
    valid': "valid_pdf env (fsys w) pdfPath dataBuffer' doc'" and
    gs: "ir_images r = concat groups" "length groups = countPages doc'" and
    pg: "\<forall>j<countPages doc'. \<exists>v v'.
           image_page env doc' (base_name env pdfPath) (requested_scale options) ?opts j v
             = (Inr (groups ! j), v')"
    by blast
  from valid valid' have doc': "doc' = doc" by (simp add: valid_pdf_def)
  have group: "page_group q (groups ! q)" if "q < countPages doc" for q
  proof -
    from that pg doc' obtain v v' where
      "image_page env doc (base_name env pdfPath) (requested_scale options) ?opts q v
         = (Inr (groups ! q), v')"
      by auto
    from image_page_group [OF this] show ?thesis by simp
  qed
  have renders: "\<forall>q<countPages doc. \<exists>a\<in>set (ir_images r). ii_page a = q + 1 \<and> is_page_render a"
  proof (intro allI impI)
    fix q assume q: "q < countPages doc"
    from group [OF q] have ne: "groups ! q \<noteq> []" and rd: "is_page_render (hd (groups ! q))"
      by (simp_all add: page_group_def)
    from ne have "hd (groups ! q) \<in> set (groups ! q)" by simp
    moreover from q gs(2) doc' have "groups ! q \<in> set groups" by simp
    ultimately have "hd (groups ! q) \<in> set (ir_images r)" using gs(1) by auto
    moreover from page_group_sorted(2) [OF group [OF q]] ne
    have "ii_page (hd (groups ! q)) = q + 1" by simp
    ultimately show "\<exists>a\<in>set (ir_images r). ii_page a = q + 1 \<and> is_page_render a"
      using rd by blast
  qed
  have pages: "\<forall>j<length groups. \<forall>a\<in>set (groups ! j). ii_page a = 0 + j + 1"
  proof (intro allI impI)
    fix j assume "j < length groups"
    with gs(2) doc' have "j < countPages doc" by simp
    from page_group_sorted(2) [OF group [OF this]]
    show "\<forall>a\<in>set (groups ! j). ii_page a = 0 + j + 1" by simp
  qed
  from p gs(2) doc' have "p < length groups" by simp
  from filter_page_concat [OF pages this]
  have at_p: "filter (\<lambda>a. ii_page a = p + 1) (ir_images r) = groups ! p"
    using gs(1) by simp
  from p pg doc' obtain v v' where
    ip: "image_page env doc (base_name env pdfPath) (requested_scale options) ?opts p v
           = (Inr (groups ! p), v')"
    by auto
  from image_page_cases [OF ip] page(1) obtain render v1 res where
    rd: "ii_type render = None" and
    em: "extractEmbeddedImages env page p (base_name env pdfPath) ?opts v1 = (res, v')" and
    g: "groups ! p = render # (case res of Inl e \<Rightarrow> [] | Inr embedded \<Rightarrow> embedded)"
    by auto
  from extractEmbeddedImages_exact [OF em page(2,3) delivery_succeeds_opts [OF deliv]]
  obtain embedded where res: "res = Inr embedded" and
    exact: "list_all2 made_from embedded
              (filter (block_decodes (requested_format options)) (imageBlocks st))"
    by (auto simp: eo_format_of)
  from group [OF p] g res have "list_all is_embedded embedded"
    by (simp add: page_group_def)
  then have "filter is_embedded embedded = embedded"
    by (simp add: list_all_iff filter_id_conv)
  with rd g res have "filter is_embedded (groups ! p) = embedded"
    by (simp add: is_embedded_def)
  with at_p have "filter (\<lambda>a. ii_page a = p + 1 \<and> is_embedded a) (ir_images r) = embedded"
    by (metis filter_filter conj_commute)
  with exact run renders show ?thesis by auto
qed

lemma sample_delivery_inline: "delivery_succeeds sample_env inline_options"
  by (simp add: delivery_succeeds_def inline_mode_def inline_options_def)

theorem decode_failure_is_skipped_witness:
  "valid_pdf sample_env (fsys sample_world) sample_path sample_bytes sample_doc \<and>
   pages_render sample_doc (requested_format inline_options) (requested_scale inline_options) \<and>
   delivery_succeeds sample_env inline_options \<and>
   0 < countPages sample_doc \<and>
   loadPage sample_doc 0 = Inr sample_page1 \<and>
   toStructuredText_images sample_page1 = Inr \<lparr>imageBlocks = sample_blocks, walkThrows = None\<rparr> \<and>
   \<not> block_decodes (ascii ''jpeg'') (sample_blocks ! 1) \<and>
   (\<exists>r w'. extractImages sample_env sample_world sample_path inline_options = (Inr r, w') \<and>
      list_all2 made_from
        (filter (\<lambda>a. ii_page a = 0 + 1 \<and> is_embedded a) (ir_images r))
        [sample_blocks ! 0, sample_blocks ! 2] \<and>
      (\<forall>q<countPages sample_doc. \<exists>a\<in>set (ir_images r). ii_page a = q + 1 \<and> is_page_render a))"
proof -
  have p: "0 < countPages sample_doc" by (simp add: sample_doc_def)
  have page: "loadPage sample_doc 0 = Inr sample_page1"
    "toStructuredText_images sample_page1 = Inr \<lparr>imageBlocks = sample_blocks, walkThrows = None\<rparr>"
    "walkThrows \<lparr>imageBlocks = sample_blocks, walkThrows = None\<rparr> = None"
    by (simp_all add: sample_doc_def sample_page1_def)
  have blocks: "filter (block_decodes (requested_format inline_options))
                  (imageBlocks \<lparr>imageBlocks = sample_blocks, walkThrows = None\<rparr>) =
                [sample_blocks ! 0, sample_blocks ! 2]"
    "\<not> block_decodes (ascii ''jpeg'') (sample_blocks ! 1)"
    by (simp_all add: block_decodes_def sample_blocks_def sample_pixmap_def encode_def
          requested_format_def inline_options_def)
  from decode_failure_is_skipped
         [OF sample_valid sample_pages_render sample_delivery_inline p page]
  show ?thesis
    using sample_valid sample_pages_render sample_delivery_inline p page(1,2) blocks
    by simp
qed

subsection \<open>Inline mode and the file system\<close>

lemma onImageBlock_inline:
  assumes "eo_returnBase64 opts"
  shows "fsys (snd (onImageBlock env p base opts b st w)) = fsys w \<and>
         writes (snd (onImageBlock env p base opts b st w)) = writes w"
  using assms
  by (cases st)
     (simp add: onImageBlock_def deliver_def Let_def split: sum.splits prod.splits)

lemma walk_inline:
  assumes "eo_returnBase64 opts"
  shows "fsys (snd (walk env p base opts bs st w)) = fsys w \<and>
         writes (snd (walk env p base opts bs st w)) = writes w"
proof (induction bs arbitrary: st w)
  case Nil
  show ?case by simp
next
  case (Cons b bs)
  obtain st1 w1 where step: "onImageBlock env p base opts b st w = (st1, w1)"
    by (cases "onImageBlock env p base opts b st w")
  with onImageBlock_inline [OF assms, of env p base b st w]
  have "fsys w1 = fsys w" "writes w1 = writes w" by simp_all
  with Cons.IH [of st1 w1] step show ?case by simp
qed

lemma extractEmbeddedImages_inline:
  assumes "eo_returnBase64 opts"
  shows "fsys (snd (extractEmbeddedImages env page p base opts w)) = fsys w \<and>
         writes (snd (extractEmbeddedImages env page p base opts w)) = writes w"
proof (cases "toStructuredText_images page")
  case (Inl e)
  then show ?thesis by (simp add: extractEmbeddedImages_def Let_def)
next
  case (Inr st)
  let ?w1 = "emit (PdfAdapter (PageStructuredImages p)) w"
  obtain images k w2 where
    wk: "walk env p base opts (imageBlocks st) ([], 1) ?w1 = ((images, k), w2)"
    by (metis surj_pair)
  with walk_inline [OF assms, of env p base "imageBlocks st" "([], 1)" ?w1]
  have "fsys w2 = fsys w" "writes w2 = writes w" by simp_all
  with Inr wk show ?thesis
    by (simp add: extractEmbeddedImages_def Let_def split: option.splits)
qed

lemma image_page_inline:
  assumes "eo_returnBase64 opts"
  shows "fsys (snd (image_page env doc base scale opts i w)) = fsys w \<and>
         writes (snd (image_page env doc base scale opts i w)) = writes w"
proof (cases "loadPage doc i")
  case (Inl e)
  then show ?thesis by (simp add: image_page_def Let_def)
next
  case page: (Inr page)
  show ?thesis
  proof (cases "page_toPixmap page scale")
    case (Inl e)
    with page show ?thesis by (simp add: image_page_def Let_def)
  next
    case pm: (Inr pixmap)
    show ?thesis
    proof (cases "encode (eo_format opts) pixmap")
      case (Inl e)
      with page pm show ?thesis by (simp add: image_page_def Let_def)
    next
      case buf: (Inr imgBuffer)
      let ?w3 = "emit (PdfAdapter PixmapEncode) (emit (PdfAdapter (PageToPixmap i))
                   (emit (PdfAdapter (LoadPage i)) w))"
      obtain res w5 where
        em: "extractEmbeddedImages env page i base opts ?w3 = (res, w5)"
        by (cases "extractEmbeddedImages env page i base opts ?w3")
      with extractEmbeddedImages_inline [OF assms, of env page i base ?w3]
      have "fsys w5 = fsys w" "writes w5 = writes w" by simp_all
      with page pm buf em assms show ?thesis
        by (cases res) (simp_all add: image_page_def deliver_def Let_def)
    qed
  qed
qed

lemma image_loop_inline:
  "eo_returnBase64 opts \<Longrightarrow>
   fsys (snd (image_loop env doc base scale opts n i images w)) = fsys w \<and>
   writes (snd (image_loop env doc base scale opts n i images w)) = writes w"
proof (induction env doc base scale opts n i images w rule: image_loop.induct)
  case (1 env doc base scale opts n i images w)
  show ?case
  proof (cases "i < n")
    case False
    then show ?thesis by (simp add: image_loop.simps)
  next
    case True
    obtain res w1 where pg: "image_page env doc base scale opts i w = (res, w1)"
      by (cases "image_page env doc base scale opts i w")
    with image_page_inline [OF "1.prems", of env doc base scale i w]
    have same: "fsys w1 = fsys w" "writes w1 = writes w" by simp_all
    show ?thesis
    proof (cases res)
      case (Inl e)
      with pg True same show ?thesis by (subst (1 2) image_loop.simps) simp
    next
      case (Inr g)
      with "1.IH" [OF True pg [symmetric] Inr "1.prems"] pg True same show ?thesis
        by (subst (1 2) image_loop.simps) simp
    qed
  qed
qed

text \<open>
  C10. In inline mode \<open>extractImages\<close> does not write to the file system, whatever the
  PDF and the other options, and whether it returns or throws: the file system is the
  same afterwards, and no \<open>mkdirSync\<close> or \<open>writeFileSync\<close> has been called.
\<close>

theorem inline_mode_writes_nothing:
  assumes "inline_mode options"
  shows "fsys (snd (extractImages env w pdfPath options)) = fsys w \<and>
         writes (snd (extractImages env w pdfPath options)) = writes w"
proof (cases "fs_existsSync env (fsys w) (path_resolve env pdfPath)")
  case False
  then show ?thesis by (simp add: extractImages_def Let_def)
next
  case ex: True
  show ?thesis
  proof (cases "fs_readFileSync env (fsys w) (path_resolve env pdfPath)")
    case (Inl e)
    with ex show ?thesis by (simp add: extractImages_def Let_def)
  next
    case rd: (Inr dataBuffer)
    show ?thesis
    proof (cases "openDocument env dataBuffer")
      case (Inl e)
      with ex rd show ?thesis by (simp add: extractImages_def Let_def)
    next
      case (Inr doc)
      with ex rd have valid: "valid_pdf env (fsys w) pdfPath dataBuffer doc"
        by (simp add: valid_pdf_def)
      let ?w4 = "emit (PdfAdapter CountPages) (emit (PdfAdapter OpenDocument)
                   (emit (ReadFileSync (path_resolve env pdfPath))
                     (emit (ExistsSync (path_resolve env pdfPath)) w)))"
      let ?loop = "image_loop env doc (base_name env pdfPath) (requested_scale options)
                     (embed_options_of env pdfPath options) (countPages doc) 0 [] ?w4"
      from assms have "eo_returnBase64 (embed_options_of env pdfPath options)"
        by (simp add: embed_options_of_def)
      from image_loop_inline [OF this, of env doc "base_name env pdfPath"
          "requested_scale options" "countPages doc" 0 "[]" ?w4]
      have "fsys (snd ?loop) = fsys w" "writes (snd ?loop) = writes w" by simp_all
      then show ?thesis
        unfolding extractImages_valid [OF valid] using assms
        by (cases ?loop; cases "fst ?loop") simp_all
    qed
  qed
qed

theorem inline_mode_writes_nothing_witness:
  "inline_mode inline_options \<and>
   fsys (snd (extractImages sample_env sample_world sample_path inline_options)) = sample_fs \<and>
   writes (snd (extractImages sample_env sample_world sample_path inline_options)) = []"
  using inline_mode_writes_nothing [of inline_options sample_env sample_world sample_path]
  by (simp add: inline_mode_def inline_options_def sample_world_def writes_def)

section \<open>extractAll\<close>

subsection \<open>Results do not depend on the calls recorded so far\<close>

lemma text_loop_fsys: "fsys (snd (text_loop doc n i pages w)) = fsys w"
proof (induction doc n i pages w rule: text_loop.induct)
  case (1 doc totalPages i pages w)
  show ?case
  proof (cases "i < totalPages")
    case False
    then show ?thesis by (simp add: text_loop.simps)
  next
    case True
    show ?thesis
    proof (cases "loadPage doc i")
      case (Inl e)
      with True show ?thesis by (subst text_loop.simps) (simp add: Let_def)
    next
      case page: (Inr page)
      show ?thesis
      proof (cases "asText page")
        case (Inl e)
        with True page show ?thesis by (subst text_loop.simps) (simp add: Let_def)
      next
        case (Inr t)
        with "1.IH" [OF True refl page refl Inr] True page show ?thesis
          by (subst text_loop.simps) (simp add: Let_def)
      qed
    qed
  qed
qed

lemma text_loop_result:
  "fst (text_loop doc n i pages w) = fst (text_loop doc n i pages v)"
proof (induction doc n i pages w arbitrary: v rule: text_loop.induct)
  case (1 doc totalPages i pages w)
  show ?case
  proof (cases "i < totalPages")
    case False
    then show ?thesis by (simp add: text_loop.simps)
  next
    case True
    show ?thesis
    proof (cases "loadPage doc i")
      case (Inl e)
      with True show ?thesis by (subst (1 2) text_loop.simps) (simp add: Let_def)
    next
      case page: (Inr page)
      show ?thesis
      proof (cases "asText page")
        case (Inl e)
        with True page show ?thesis by (subst (1 2) text_loop.simps) (simp add: Let_def)
      next
        case (Inr t)
        from "1.IH" [OF True refl page refl Inr] True page Inr show ?thesis
          by (subst (1 2) text_loop.simps) (simp add: Let_def)
      qed
    qed
  qed
qed

lemma extractText_tail_fsys:
  "fsys (snd (extractText_tail env w absolutePath dataBuffer outcome)) = fsys w"
proof (cases "openDocument env dataBuffer")
  case (Inl e)
  then show ?thesis by (simp add: extractText_tail_def Let_def)
next
  case (Inr doc)
  let ?w2 = "emit (PdfAdapter CountPages) (emit (PdfAdapter OpenDocument) w)"
  obtain res w3 where loop: "text_loop doc (countPages doc) 0 [] ?w2 = (res, w3)"
    by (cases "text_loop doc (countPages doc) 0 [] ?w2")
  with text_loop_fsys [of doc "countPages doc" 0 "[]" ?w2] have "fsys w3 = fsys w" by simp
  with Inr loop show ?thesis
    by (cases res) (simp_all add: extractText_tail_def Let_def)
qed

lemma extractText_tail_result:
  "fst (extractText_tail env w absolutePath dataBuffer outcome) =
   fst (extractText_tail env v absolutePath dataBuffer outcome)"
proof (cases "openDocument env dataBuffer")
  case (Inl e)
  then show ?thesis by (simp add: extractText_tail_def Let_def)
next
  case (Inr doc)
  let ?w2 = "emit (PdfAdapter CountPages) (emit (PdfAdapter OpenDocument) w)"
  let ?v2 = "emit (PdfAdapter CountPages) (emit (PdfAdapter OpenDocument) v)"
  obtain res w3 where lw: "text_loop doc (countPages doc) 0 [] ?w2 = (res, w3)"
    by (cases "text_loop doc (countPages doc) 0 [] ?w2")
  obtain res' v3 where lv: "text_loop doc (countPages doc) 0 [] ?v2 = (res', v3)"
    by (cases "text_loop doc (countPages doc) 0 [] ?v2")
  from text_loop_result [of doc "countPages doc" 0 "[]" ?w2 ?v2] lw lv have "res' = res"
    by simp
  with Inr lw lv show ?thesis
    by (cases res) (simp_all add: extractText_tail_def Let_def)
qed

lemma extractText_head_fsys: "fsys (snd (extractText_head env w pdfPath)) = fsys w"
  by (simp add: extractText_head_def Let_def split: sum.splits)

lemma deliver_same_fs:
  "fsys w = fsys v \<Longrightarrow>
   fst (deliver env opts fileName imgBuffer info w) =
     fst (deliver env opts fileName imgBuffer info v) \<and>
   fsys (snd (deliver env opts fileName imgBuffer info w)) =
     fsys (snd (deliver env opts fileName imgBuffer info v))"
  by (simp add: deliver_def Let_def split: js_path.splits prod.splits option.splits)

lemma onImageBlock_same_fs:
  assumes "fsys w = fsys v"
  shows "fst (onImageBlock env p base opts b st w) = fst (onImageBlock env p base opts b st v) \<and>
         fsys (snd (onImageBlock env p base opts b st w)) =
           fsys (snd (onImageBlock env p base opts b st v))"
proof (cases st)
  case (Pair images k)
  show ?thesis
  proof (cases "image_toPixmap b")
    case (Inl e)
    with Pair assms show ?thesis by (simp add: onImageBlock_def Let_def)
  next
    case pm: (Inr pixmap)
    show ?thesis
    proof (cases "encode (eo_format opts) pixmap")
      case (Inl e)
      with Pair pm assms show ?thesis by (simp add: onImageBlock_def Let_def)
    next
      case buf: (Inr imgBuffer)
      let ?info = "\<lparr>ii_page = p + 1, ii_imageIndex = k, ii_width = getWidth pixmap,
                    ii_height = getHeight pixmap, ii_format = eo_format opts,
                    ii_type = Some (ascii ''embedded''), ii_bbox = Some (bbox_of b),
                    ii_base64 = None, ii_mimeType = None, ii_path = None\<rparr>"
      let ?f = "embedded_fileName base p k (eo_format opts)"
      let ?w2 = "emit (PdfAdapter PixmapEncode) (emit (PdfAdapter ImageToPixmap) w)"
      let ?v2 = "emit (PdfAdapter PixmapEncode) (emit (PdfAdapter ImageToPixmap) v)"
      obtain dw w3 where dw: "deliver env opts ?f imgBuffer ?info ?w2 = (dw, w3)"
        by (cases "deliver env opts ?f imgBuffer ?info ?w2")
      obtain dv v3 where dv: "deliver env opts ?f imgBuffer ?info ?v2 = (dv, v3)"
        by (cases "deliver env opts ?f imgBuffer ?info ?v2")
      from assms have "fsys ?w2 = fsys ?v2" by simp
      from deliver_same_fs [OF this, of env opts ?f imgBuffer ?info] dw dv
      have "dv = dw" "fsys w3 = fsys v3" by simp_all
      with Pair pm buf dw dv show ?thesis
        by (cases dw) (simp_all add: onImageBlock_def Let_def)
    qed
  qed
qed

lemma walk_same_fs:
  "fsys w = fsys v \<Longrightarrow>
   fst (walk env p base opts bs st w) = fst (walk env p base opts bs st v) \<and>
   fsys (snd (walk env p base opts bs st w)) = fsys (snd (walk env p base opts bs st v))"
proof (induction bs arbitrary: st w v)
  case Nil
  then show ?case by simp
next
  case (Cons b bs)
  obtain st1 w1 where sw: "onImageBlock env p base opts b st w = (st1, w1)"
    by (cases "onImageBlock env p base opts b st w")
  obtain st2 v1 where sv: "onImageBlock env p base opts b st v = (st2, v1)"
    by (cases "onImageBlock env p base opts b st v")
  from onImageBlock_same_fs [OF Cons.prems, of env p base opts b st] sw sv
  have "st2 = st1" "fsys w1 = fsys v1" by simp_all
  with Cons.IH [of w1 v1 st1] sw sv show ?case by simp
qed

lemma extractEmbeddedImages_same_fs:
  assumes "fsys w = fsys v"
  shows "fst (extractEmbeddedImages env page p base opts w) =
           fst (extractEmbeddedImages env page p base opts v) \<and>
         fsys (snd (extractEmbeddedImages env page p base opts w)) =
           fsys (snd (extractEmbeddedImages env page p base opts v))"
proof (cases "toStructuredText_images page")
  case (Inl e)
  with assms show ?thesis by (simp add: extractEmbeddedImages_def Let_def)
next
  case (Inr st)
  let ?w1 = "emit (PdfAdapter (PageStructuredImages p)) w"
  let ?v1 = "emit (PdfAdapter (PageStructuredImages p)) v"
  obtain rw w2 where ww: "walk env p base opts (imageBlocks st) ([], 1) ?w1 = (rw, w2)"
    by (cases "walk env p base opts (imageBlocks st) ([], 1) ?w1")
  obtain rv v2 where wv: "walk env p base opts (imageBlocks st) ([], 1) ?v1 = (rv, v2)"
    by (cases "walk env p base opts (imageBlocks st) ([], 1) ?v1")
  from assms have "fsys ?w1 = fsys ?v1" by simp
  from walk_same_fs [OF this, of env p base opts "imageBlocks st" "([], 1)"] ww wv
  have "rv = rw" "fsys w2 = fsys v2" by simp_all
  with Inr ww wv show ?thesis
    by (cases rw) (simp add: extractEmbeddedImages_def Let_def split: option.splits)
qed

lemma image_page_same_fs:
  assumes "fsys w = fsys v"
  shows "fst (image_page env doc base scale opts i w) =
           fst (image_page env doc base scale opts i v) \<and>
         fsys (snd (image_page env doc base scale opts i w)) =
           fsys (snd (image_page env doc base scale opts i v))"
proof (cases "loadPage doc i")
  case (Inl e)
  with assms show ?thesis by (simp add: image_page_def Let_def)
next
  case page: (Inr page)
  show ?thesis
  proof (cases "page_toPixmap page scale")
    case (Inl e)
    with page assms show ?thesis by (simp add: image_page_def Let_def)
  next
    case pm: (Inr pixmap)
    show ?thesis
    proof (cases "encode (eo_format opts) pixmap")
      case (Inl e)
      with page pm assms show ?thesis by (simp add: image_page_def Let_def)
    next
      case buf: (Inr imgBuffer)
      let ?info = "\<lparr>ii_page = i + 1, ii_imageIndex = 0, ii_width = getWidth pixmap,
                    ii_height = getHeight pixmap, ii_format = eo_format opts, ii_type = None,
                    ii_bbox = None, ii_base64 = None, ii_mimeType = None, ii_path = None\<rparr>"
      let ?f = "page_fileName base i (eo_format opts)"
      let ?w3 = "emit (PdfAdapter PixmapEncode) (emit (PdfAdapter (PageToPixmap i))
                   (emit (PdfAdapter (LoadPage i)) w))"
      let ?v3 = "emit (PdfAdapter PixmapEncode) (emit (PdfAdapter (PageToPixmap i))
                   (emit (PdfAdapter (LoadPage i)) v))"
      obtain dw w4 where dw: "deliver env opts ?f imgBuffer ?info ?w3 = (dw, w4)"
        by (cases "deliver env opts ?f imgBuffer ?info ?w3")
      obtain dv v4 where dv: "deliver env opts ?f imgBuffer ?info ?v3 = (dv, v4)"
        by (cases "deliver env opts ?f imgBuffer ?info ?v3")
      from assms have "fsys ?w3 = fsys ?v3" by simp
      from deliver_same_fs [OF this, of env opts ?f imgBuffer ?info] dw dv
      have d: "dv = dw" "fsys w4 = fsys v4" by simp_all
      show ?thesis
      proof (cases dw)
        case (Inl e)
        with page pm buf dw dv d show ?thesis by (simp add: image_page_def Let_def)
      next
        case (Inr render)
        obtain ew w5 where ew: "extractEmbeddedImages env page i base opts w4 = (ew, w5)"
          by (cases "extractEmbeddedImages env page i base opts w4")
        obtain ev v5 where ev: "extractEmbeddedImages env page i base opts v4 = (ev, v5)"
          by (cases "extractEmbeddedImages env page i base opts v4")
        from extractEmbeddedImages_same_fs [OF d(2), of env page i base opts] ew ev
        have "ev = ew" "fsys w5 = fsys v5" by simp_all
        with page pm buf dw dv d Inr ew ev show ?thesis
          by (cases ew) (simp_all add: image_page_def Let_def)
      qed
    qed
  qed
qed

lemma image_loop_same_fs:
  "fsys w = fsys v \<Longrightarrow>
   fst (image_loop env doc base scale opts n i images w) =
     fst (image_loop env doc base scale opts n i images v) \<and>
   fsys (snd (image_loop env doc base scale opts n i images w)) =
     fsys (snd (image_loop env doc base scale opts n i images v))"
proof (induction env doc base scale opts n i images w arbitrary: v rule: image_loop.induct)
  case (1 env doc base scale opts n i images w)
  show ?case
  proof (cases "i < n")
    case False
    with "1.prems" show ?thesis by (simp add: image_loop.simps)
  next
    case True
    obtain rw w1 where pw: "image_page env doc base scale opts i w = (rw, w1)"
      by (cases "image_page env doc base scale opts i w")
    obtain rv v1 where pv: "image_page env doc base scale opts i v = (rv, v1)"
      by (cases "image_page env doc base scale opts i v")
    from image_page_same_fs [OF "1.prems", of env doc base scale opts i] pw pv
    have same: "rv = rw" "fsys w1 = fsys v1" by simp_all
    show ?thesis
    proof (cases rw)
      case (Inl e)
      with pw pv same True show ?thesis by (subst (1 2 3 4) image_loop.simps) simp
    next
      case (Inr g)
      from "1.IH" [OF True pw [symmetric] Inr same(2)] pw pv same True Inr show ?thesis
        by (subst (1 2 3 4) image_loop.simps) simp
    qed
  qed
qed
lemma mkdirSync_same_fs:
  "fsys w = fsys v \<Longrightarrow>
   fst (mkdirSync env dir w) = fst (mkdirSync env dir v) \<and>
   fsys (snd (mkdirSync env dir w)) = fsys (snd (mkdirSync env dir v))"
  by (cases dir) (simp_all add: Let_def split: prod.splits)

lemma extractImages_same_fs:
  assumes "fsys w = fsys v"
  shows "fst (extractImages env w pdfPath options) = fst (extractImages env v pdfPath options)"
proof (cases "fs_existsSync env (fsys w) (path_resolve env pdfPath)")
  case False
  with assms show ?thesis by (simp add: extractImages_def Let_def)
next
  case ex: True
  show ?thesis
  proof (cases "fs_readFileSync env (fsys w) (path_resolve env pdfPath)")
    case (Inl e)
    with ex assms show ?thesis by (simp add: extractImages_def Let_def)
  next
    case rd: (Inr dataBuffer)
    show ?thesis
    proof (cases "openDocument env dataBuffer")
      case (Inl e)
      with ex rd assms show ?thesis by (simp add: extractImages_def Let_def)
    next
      case (Inr doc)
      with ex rd assms have valid: "valid_pdf env (fsys w) pdfPath dataBuffer doc"
        "valid_pdf env (fsys v) pdfPath dataBuffer doc"
        by (simp_all add: valid_pdf_def)
      let ?w4 = "emit (PdfAdapter CountPages) (emit (PdfAdapter OpenDocument)
                   (emit (ReadFileSync (path_resolve env pdfPath))
                     (emit (ExistsSync (path_resolve env pdfPath)) w)))"
      let ?v4 = "emit (PdfAdapter CountPages) (emit (PdfAdapter OpenDocument)
                   (emit (ReadFileSync (path_resolve env pdfPath))
                     (emit (ExistsSync (path_resolve env pdfPath)) v)))"
      let ?mw = "if \<not> inline_mode options
                 then mkdirSync env (output_directory env pdfPath options) ?w4 else (None, ?w4)"
      let ?mv = "if \<not> inline_mode options
                 then mkdirSync env (output_directory env pdfPath options) ?v4 else (None, ?v4)"
      from assms have four: "fsys ?w4 = fsys ?v4" by simp
      obtain mw w5 where mw: "?mw = (mw, w5)" by (cases ?mw)
      obtain mv v5 where mv: "?mv = (mv, v5)" by (cases ?mv)
      from mkdirSync_same_fs [OF four, of env "output_directory env pdfPath options"] four mw mv
      have m: "mv = mw" "fsys w5 = fsys v5"
        by (cases "inline_mode options"; simp)+
      let ?lw = "image_loop env doc (base_name env pdfPath) (requested_scale options)
                   (embed_options_of env pdfPath options) (countPages doc) 0 [] w5"
      let ?lv = "image_loop env doc (base_name env pdfPath) (requested_scale options)
                   (embed_options_of env pdfPath options) (countPages doc) 0 [] v5"
      obtain lw w6 where lw: "?lw = (lw, w6)" by (cases ?lw)
      obtain lv v6 where lv: "?lv = (lv, v6)" by (cases ?lv)
      from image_loop_same_fs [OF m(2), of env doc "base_name env pdfPath"
          "requested_scale options" "embed_options_of env pdfPath options" "countPages doc" 0 "[]"]
        lw lv
      have "lv = lw" by simp
      with m lw lv mw mv show ?thesis
        unfolding extractImages_valid [OF valid(1)] extractImages_valid [OF valid(2)]
        by (cases mw; cases lw) simp_all
    qed
  qed
qed

lemma extractText_head_Inr:
  assumes "fst (extractText env w pdfPath) = Inr textResult"
  shows "\<exists>absolutePath dataBuffer outcome w1.
           extractText_head env w pdfPath = (Inr (absolutePath, dataBuffer, outcome), w1) \<and>
           fst (extractText_tail env w1 absolutePath dataBuffer outcome) = Inr textResult"
proof -
  obtain h w1 where h: "extractText_head env w pdfPath = (h, w1)"
    by (cases "extractText_head env w pdfPath")
  show ?thesis
  proof (cases h)
    case (Inl e)
    with h assms show ?thesis by (simp add: extractText_def)
  next
    case (Inr x)
    obtain absolutePath dataBuffer outcome where "x = (absolutePath, dataBuffer, outcome)"
      by (cases x)
    with Inr h assms show ?thesis by (simp add: extractText_def)
  qed
qed

section \<open>Claim about extractAll\<close>

text \<open>
  C6. When \<open>extractText\<close> and \<open>extractImages\<close> succeed on a PDF, \<open>extractAll\<close> succeeds, and
  its \<open>pages\<close> have one entry for each entry of the text result, in the same order and
  with the same page number and text; the images of each entry are exactly the images of
  the image result whose page number is that of the entry, in their order.
\<close>

theorem extractAll_groups_by_page:
  assumes tx: "fst (extractText env w pdfPath) = Inr textResult"
    and images: "fst (extractImages env w pdfPath options) = Inr imageResult"
  shows "\<exists>c w'. extractAll env w pdfPath options = (Inr c, w') \<and>
           map (\<lambda>e. (cp_page e, cp_text e)) (cr_pages c) =
             map (\<lambda>p. (pt_page p, pt_text p)) (tr_pages textResult) \<and>
           list_all (\<lambda>e. cp_images e =
                           filter (\<lambda>img. ii_page img = cp_page e) (ir_images imageResult))
             (cr_pages c)"
proof -
  from extractText_head_Inr [OF tx] obtain absolutePath dataBuffer outcome w1 where
    head: "extractText_head env w pdfPath = (Inr (absolutePath, dataBuffer, outcome), w1)" and
    tail: "fst (extractText_tail env w1 absolutePath dataBuffer outcome) = Inr textResult"
    by blast
  from extractText_head_fsys [of env w pdfPath] head have w1: "fsys w1 = fsys w" by simp
  have tail_any: "fst (extractText_tail env v absolutePath dataBuffer outcome) = Inr textResult"
    for v
    using tail extractText_tail_result [of env v absolutePath dataBuffer outcome w1] by simp
  have images_any: "fst (extractImages env v pdfPath options) = Inr imageResult"
    if "fsys v = fsys w" for v
    using images extractImages_same_fs [OF that, of env pdfPath options] by simp
  have "fst (extractAll env w pdfPath options) = Inr (combine textResult imageResult)"
  proof (cases "outcome = ParseThrows")
    case True
    obtain rt w2 where t: "extractText_tail env w1 absolutePath dataBuffer outcome = (rt, w2)"
      by (cases "extractText_tail env w1 absolutePath dataBuffer outcome")
    with tail have rt: "rt = Inr textResult" by simp
    from extractText_tail_fsys [of env w1 absolutePath dataBuffer outcome] t w1
    have "fsys w2 = fsys w" by simp
    from images_any [OF this] obtain w3 where
      "extractImages env w2 pdfPath options = (Inr imageResult, w3)"
      by (cases "extractImages env w2 pdfPath options") simp
    with head True t rt show ?thesis by (simp add: extractAll_def)
  next
    case False
    from images_any [OF w1] obtain w2 where
      i: "extractImages env w1 pdfPath options = (Inr imageResult, w2)"
      by (cases "extractImages env w1 pdfPath options") simp
    from tail_any [of w2] obtain w3 where
      "extractText_tail env w2 absolutePath dataBuffer outcome = (Inr textResult, w3)"
      by (cases "extractText_tail env w2 absolutePath dataBuffer outcome") simp
    with head False i show ?thesis
      by (cases outcome) (simp_all add: extractAll_def)
  qed
  then obtain w' where
    "extractAll env w pdfPath options = (Inr (combine textResult imageResult), w')"
    by (cases "extractAll env w pdfPath options") simp
  moreover have "map (\<lambda>e. (cp_page e, cp_text e)) (cr_pages (combine textResult imageResult)) =
                 map (\<lambda>p. (pt_page p, pt_text p)) (tr_pages textResult)"
    by (simp add: combine_def o_def)
  moreover have "list_all (\<lambda>e. cp_images e =
                           filter (\<lambda>img. ii_page img = cp_page e) (ir_images imageResult))
                   (cr_pages (combine textResult imageResult))"
    by (simp add: combine_def list_all_iff)
  ultimately show ?thesis by blast
qed

lemma sample_text_run:
  "fst (extractText sample_env sample_world sample_path) = Inr sample_text_result"
  by (simp add: extractText_def extractText_head_def extractText_tail_def text_loop.simps
        Let_def empty_info_def null_metadata_def trim_def isWhiteSpace_def
        sample_text_result_def sample_defs ascii_def)

theorem extractAll_groups_by_page_witness:
  "fst (extractText sample_env sample_world sample_path) = Inr sample_text_result \<and>
   fst (extractImages sample_env sample_world sample_path inline_options) =
     Inr \<lparr>ir_file = sample_path, ir_totalPages = 2, ir_totalImages = 4,
          ir_images = sample_inline_images\<rparr> \<and>
   (\<exists>c w'. extractAll sample_env sample_world sample_path inline_options = (Inr c, w') \<and>
      map (\<lambda>e. (cp_page e, cp_text e)) (cr_pages c) = [(1, ascii ''Hello world''), (2, [])] \<and>
      map cp_images (cr_pages c) = [take 3 sample_inline_images, drop 3 sample_inline_images])"
proof -
  from extractAll_groups_by_page [OF sample_text_run sample_inline_run] obtain c w' where
    run: "extractAll sample_env sample_world sample_path inline_options = (Inr c, w')" and
    pages: "map (\<lambda>e. (cp_page e, cp_text e)) (cr_pages c) =
              map (\<lambda>p. (pt_page p, pt_text p)) (tr_pages sample_text_result)" and
    imgs: "list_all (\<lambda>e. cp_images e =
                      filter (\<lambda>img. ii_page img = cp_page e)
                        (ir_images \<lparr>ir_file = sample_path, ir_totalPages = 2,
                           ir_totalImages = 4, ir_images = sample_inline_images\<rparr>))
             (cr_pages c)"
    by blast
  from pages have keys: "map (\<lambda>e. (cp_page e, cp_text e)) (cr_pages c) =
                          [(1, ascii ''Hello world''), (2, [])]"
    by (simp add: sample_text_result_def)
  then obtain e1 e2 where c: "cr_pages c = [e1, e2]" "cp_page e1 = 1" "cp_page e2 = 2"
    by auto
  with imgs have "map cp_images (cr_pages c) =
                  [take 3 sample_inline_images, drop 3 sample_inline_images]"
    by (simp add: sample_inline_images_def)
  with run keys have
    "\<exists>c w'. extractAll sample_env sample_world sample_path inline_options = (Inr c, w') \<and>
      map (\<lambda>e. (cp_page e, cp_text e)) (cr_pages c) = [(1, ascii ''Hello world''), (2, [])] \<and>
      map cp_images (cr_pages c) = [take 3 sample_inline_images, drop 3 sample_inline_images]"
    by (intro exI [of _ c] exI [of _ w'] conjI)
  with sample_text_run sample_inline_run show ?thesis by (intro conjI)
qed
section \<open>The default output directory\<close>

lemma writes_under_refl: "writes_under env dir w w"
  by (simp add: writes_under_def)

lemma writes_under_trans:
  "writes_under env dir w v \<Longrightarrow> writes_under env dir v u \<Longrightarrow> writes_under env dir w u"
  by (auto simp: writes_under_def)

lemma writes_under_emit:
  "under_directory env dir e \<Longrightarrow> writes_under env dir w v \<Longrightarrow>
   writes_under env dir w (emit e v)"
  by (auto simp: writes_under_def)

lemma writes_under_fsys:
  "writes_under env dir w v \<Longrightarrow> writes_under env dir w (v\<lparr>fsys := fs\<rparr>)"
  by (simp add: writes_under_def)

lemma deliver_under:
  assumes "eo_outputDir opts = Str dir" and "writes_under env dir w v"
  shows "writes_under env dir w (snd (deliver env opts fileName imgBuffer info v))"
proof (cases "eo_returnBase64 opts")
  case True
  with assms(2) show ?thesis by (simp add: deliver_def)
next
  case False
  have "under_directory env dir (WriteFileSync (path_join env dir fileName) imgBuffer)"
    by auto
  from writes_under_emit [OF this assms(2)] have
    "writes_under env dir w
       ((emit (WriteFileSync (path_join env dir fileName) imgBuffer) v)\<lparr>fsys := fs\<rparr>)" for fs
    by (rule writes_under_fsys)
  with False assms(1) show ?thesis
    by (simp add: deliver_def Let_def split: prod.splits option.splits)
qed

lemma onImageBlock_under:
  assumes "eo_outputDir opts = Str dir" and "writes_under env dir w v"
  shows "writes_under env dir w (snd (onImageBlock env p base opts b st v))"
proof (cases st)
  case (Pair images k)
  have w1: "writes_under env dir w (emit (PdfAdapter ImageToPixmap) v)"
    by (rule writes_under_emit [OF _ assms(2)]) simp
  have w2: "writes_under env dir w
              (emit (PdfAdapter PixmapEncode) (emit (PdfAdapter ImageToPixmap) v))"
    by (rule writes_under_emit [OF _ w1]) simp
  show ?thesis
  proof (cases "image_toPixmap b")
    case (Inl e)
    with Pair w1 show ?thesis by (simp add: onImageBlock_def Let_def)
  next
    case pm: (Inr pixmap)
    show ?thesis
    proof (cases "encode (eo_format opts) pixmap")
      case (Inl e)
      with Pair pm w2 show ?thesis by (simp add: onImageBlock_def Let_def)
    next
      case buf: (Inr imgBuffer)
      let ?info = "\<lparr>ii_page = p + 1, ii_imageIndex = k, ii_width = getWidth pixmap,
                    ii_height = getHeight pixmap, ii_format = eo_format opts,
                    ii_type = Some (ascii ''embedded''), ii_bbox = Some (bbox_of b),
                    ii_base64 = None, ii_mimeType = None, ii_path = None\<rparr>"
      let ?d = "deliver env opts (embedded_fileName base p k (eo_format opts)) imgBuffer ?info
                  (emit (PdfAdapter PixmapEncode) (emit (PdfAdapter ImageToPixmap) v))"
      obtain res v3 where d: "?d = (res, v3)" by (cases ?d)
      with deliver_under [OF assms(1) w2, of "embedded_fileName base p k (eo_format opts)"
          imgBuffer ?info]
      have "writes_under env dir w v3" by simp
      with Pair pm buf d show ?thesis
        by (cases res) (simp_all add: onImageBlock_def Let_def)
    qed
  qed
qed

lemma walk_under:
  assumes "eo_outputDir opts = Str dir"
  shows "writes_under env dir w v \<Longrightarrow>
         writes_under env dir w (snd (walk env p base opts bs st v))"
proof (induction bs arbitrary: st v)
  case Nil
  then show ?case by simp
next
  case (Cons b bs)
  obtain st1 v1 where step: "onImageBlock env p base opts b st v = (st1, v1)"
    by (cases "onImageBlock env p base opts b st v")
  with onImageBlock_under [OF assms Cons.prems, of p base b st]
  have "writes_under env dir w v1" by simp
  from Cons.IH [OF this, of st1] step show ?case by simp
qed

lemma extractEmbeddedImages_under:
  assumes "eo_outputDir opts = Str dir" and "writes_under env dir w v"
  shows "writes_under env dir w (snd (extractEmbeddedImages env page p base opts v))"
proof -
  have w1: "writes_under env dir w (emit (PdfAdapter (PageStructuredImages p)) v)"
    by (rule writes_under_emit [OF _ assms(2)]) simp
  show ?thesis
  proof (cases "toStructuredText_images page")
    case (Inl e)
    with w1 show ?thesis by (simp add: extractEmbeddedImages_def Let_def)
  next
    case (Inr st)
    let ?wk = "walk env p base opts (imageBlocks st) ([], 1)
                 (emit (PdfAdapter (PageStructuredImages p)) v)"
    obtain images k v2 where wk: "?wk = ((images, k), v2)" by (metis surj_pair)
    with walk_under [OF assms(1) w1, of p base "imageBlocks st" "([], 1)"]
    have "writes_under env dir w v2" by simp
    with Inr wk show ?thesis
      by (simp add: extractEmbeddedImages_def Let_def split: option.splits)
  qed
qed

lemma image_page_under:
  assumes "eo_outputDir opts = Str dir" and "writes_under env dir w v"
  shows "writes_under env dir w (snd (image_page env doc base scale opts i v))"
proof -
  have w1: "writes_under env dir w (emit (PdfAdapter (LoadPage i)) v)"
    by (rule writes_under_emit [OF _ assms(2)]) simp
  have w2: "writes_under env dir w
              (emit (PdfAdapter (PageToPixmap i)) (emit (PdfAdapter (LoadPage i)) v))"
    by (rule writes_under_emit [OF _ w1]) simp
  have w3: "writes_under env dir w
              (emit (PdfAdapter PixmapEncode)
                (emit (PdfAdapter (PageToPixmap i)) (emit (PdfAdapter (LoadPage i)) v)))"
    by (rule writes_under_emit [OF _ w2]) simp
  show ?thesis
  proof (cases "loadPage doc i")
    case (Inl e)
    with w1 show ?thesis by (simp add: image_page_def Let_def)
  next
    case page: (Inr page)
    show ?thesis
    proof (cases "page_toPixmap page scale")
      case (Inl e)
      with page w2 show ?thesis by (simp add: image_page_def Let_def)
    next
      case pm: (Inr pixmap)
      show ?thesis
      proof (cases "encode (eo_format opts) pixmap")
        case (Inl e)
        with page pm w3 show ?thesis by (simp add: image_page_def Let_def)
      next
        case buf: (Inr imgBuffer)
        let ?info = "\<lparr>ii_page = i + 1, ii_imageIndex = 0, ii_width = getWidth pixmap,
                      ii_height = getHeight pixmap, ii_format = eo_format opts,
                      ii_type = None, ii_bbox = None, ii_base64 = None, ii_mimeType = None,
                      ii_path = None\<rparr>"
        let ?d = "deliver env opts (page_fileName base i (eo_format opts)) imgBuffer ?info
                    (emit (PdfAdapter PixmapEncode)
                      (emit (PdfAdapter (PageToPixmap i)) (emit (PdfAdapter (LoadPage i)) v)))"
        obtain res v4 where d: "?d = (res, v4)" by (cases ?d)
        with deliver_under [OF assms(1) w3, of "page_fileName base i (eo_format opts)"
            imgBuffer ?info]
        have w4: "writes_under env dir w v4" by simp
        show ?thesis
        proof (cases res)
          case (Inl e)
          with page pm buf d w4 show ?thesis by (simp add: image_page_def Let_def)
        next
          case (Inr render)
          obtain er v5 where e: "extractEmbeddedImages env page i base opts v4 = (er, v5)"
            by (cases "extractEmbeddedImages env page i base opts v4")
          with extractEmbeddedImages_under [OF assms(1) w4, of page i base]
          have "writes_under env dir w v5" by simp
          with page pm buf d Inr e show ?thesis
            by (cases er) (simp_all add: image_page_def Let_def)
        qed
      qed
    qed
  qed
qed

lemma image_loop_under:
  "eo_outputDir opts = Str dir \<Longrightarrow> writes_under env dir w v \<Longrightarrow>
   writes_under env dir w (snd (image_loop env doc base scale opts n i images v))"
proof (induction env doc base scale opts n i images v rule: image_loop.induct)
  case (1 env doc base scale opts n i images v)
  show ?case
  proof (cases "i < n")
    case False
    with "1.prems" show ?thesis by (simp add: image_loop.simps)
  next
    case True
    obtain res v1 where pg: "image_page env doc base scale opts i v = (res, v1)"
      by (cases "image_page env doc base scale opts i v")
    with image_page_under [OF "1.prems", of doc base scale i]
    have v1: "writes_under env dir w v1" by simp
    show ?thesis
    proof (cases res)
      case (Inl e)
      with pg True v1 show ?thesis by (subst image_loop.simps) simp
    next
      case (Inr g)
      with "1.IH" [OF True pg [symmetric] Inr "1.prems"(1) v1] pg True show ?thesis
        by (subst image_loop.simps) simp
    qed
  qed
qed

text \<open>
  Without \<open>outputDir\<close> in the options, \<open>extractImages\<close> creates no directory other than that
  of the PDF and writes no file outside it, whatever the run.
\<close>

lemma default_output_directory:
  assumes "opt_outputDir options = Undefined"
  shows "writes_under env (path_dirname env (path_resolve env pdfPath)) w
           (snd (extractImages env w pdfPath options))"
proof -
  let ?abs = "path_resolve env pdfPath"
  let ?dir = "path_dirname env ?abs"
  have w1: "writes_under env ?dir w (emit (ExistsSync ?abs) w)"
    by (rule writes_under_emit [OF _ writes_under_refl]) simp
  have w2: "writes_under env ?dir w (emit (ReadFileSync ?abs) (emit (ExistsSync ?abs) w))"
    by (rule writes_under_emit [OF _ w1]) simp
  have w3: "writes_under env ?dir w
              (emit (PdfAdapter OpenDocument) (emit (ReadFileSync ?abs) (emit (ExistsSync ?abs) w)))"
    by (rule writes_under_emit [OF _ w2]) simp
  let ?w4 = "emit (PdfAdapter CountPages) (emit (PdfAdapter OpenDocument)
               (emit (ReadFileSync ?abs) (emit (ExistsSync ?abs) w)))"
  have w4: "writes_under env ?dir w ?w4"
    by (rule writes_under_emit [OF _ w3]) simp
  show ?thesis
  proof (cases "fs_existsSync env (fsys w) ?abs")
    case False
    with w1 show ?thesis by (simp add: extractImages_def Let_def)
  next
    case ex: True
    show ?thesis
    proof (cases "fs_readFileSync env (fsys w) ?abs")
      case (Inl e)
      with ex w2 show ?thesis by (simp add: extractImages_def Let_def)
    next
      case rd: (Inr dataBuffer)
      show ?thesis
      proof (cases "openDocument env dataBuffer")
        case (Inl e)
        with ex rd w3 show ?thesis by (simp add: extractImages_def Let_def)
      next
        case (Inr doc)
        with ex rd have valid: "valid_pdf env (fsys w) pdfPath dataBuffer doc"
          by (simp add: valid_pdf_def)
        from assms have dir: "output_directory env pdfPath options = Str ?dir"
          "eo_outputDir (embed_options_of env pdfPath options) = Str ?dir"
          by (simp_all add: output_directory_def embed_options_of_def)
        let ?mk = "if \<not> inline_mode options then mkdirSync env (Str ?dir) ?w4 else (None, ?w4)"
        obtain m w5 where mk: "?mk = (m, w5)" by (cases ?mk)
        have "under_directory env ?dir (MkdirSync (Str ?dir))" by simp
        from writes_under_emit [OF this w4] have
          "writes_under env ?dir w ((emit (MkdirSync (Str ?dir)) ?w4)\<lparr>fsys := fs\<rparr>)" for fs
          by (rule writes_under_fsys)
        with mk w4 have w5: "writes_under env ?dir w w5"
          by (cases "inline_mode options") (auto simp: Let_def split: prod.splits)
        let ?loop = "image_loop env doc (base_name env pdfPath) (requested_scale options)
                       (embed_options_of env pdfPath options) (countPages doc) 0 [] w5"
        from image_loop_under [OF dir(2) w5]
        have "writes_under env ?dir w (snd ?loop)" .
        with mk w5 show ?thesis
          unfolding extractImages_valid [OF valid] dir(1)
          by (cases m; cases ?loop; cases "fst ?loop") simp_all
      qed
    qed
  qed
qed

section \<open>Claims about the front-ends\<close>

lemma extractText_missing:
  "\<not> fs_existsSync env (fsys w) (path_resolve env pdfPath) \<Longrightarrow>
   fst (extractText env w pdfPath) = Inl (file_not_found (path_resolve env pdfPath))"
  by (simp add: extractText_def extractText_head_def Let_def)

lemma extractImages_missing:
  "\<not> fs_existsSync env (fsys w) (path_resolve env pdfPath) \<Longrightarrow>
   fst (extractImages env w pdfPath options) = Inl (file_not_found (path_resolve env pdfPath))"
  by (simp add: extractImages_def Let_def)

lemma extractAll_missing:
  "\<not> fs_existsSync env (fsys w) (path_resolve env pdfPath) \<Longrightarrow>
   fst (extractAll env w pdfPath options) = Inl (file_not_found (path_resolve env pdfPath))"
  by (simp add: extractAll_def extractText_head_def Let_def split: prod.splits)

text \<open>
  C7. Whatever error the Extraction Core throws in a tool call, the handler of
  \<open>extract_pdf_text\<close>, \<open>extract_pdf_images\<close> or \<open>extract_pdf_all\<close> returns a result: a single
  text block that holds \<open>Error:\<close> and the message of the error, flagged with \<open>isError\<close>.
\<close>

theorem tool_errors_are_caught:
  "(fst (extractText env w pdfPath) = Inl e1 \<longrightarrow>
      fst (extract_pdf_text env w pdfPath) =
        \<lparr>content = [TextContent (ascii ''Error: '' @ message e1)], isError = True\<rparr>) \<and>
   (fst (extractImages env w pdfPath
           \<lparr>opt_outputDir = (case outputDir of None \<Rightarrow> Undefined | Some dir \<Rightarrow> Str dir),
            opt_format = Some format, opt_base64 = Some returnBase64, opt_dpi = Some dpi\<rparr>)
      = Inl e2 \<longrightarrow>
      fst (extract_pdf_images env w pdfPath outputDir format returnBase64 dpi) =
        \<lparr>content = [TextContent (ascii ''Error: '' @ message e2)], isError = True\<rparr>) \<and>
   (fst (extractAll env w pdfPath
           \<lparr>opt_outputDir = (case outputDir of None \<Rightarrow> Undefined | Some dir \<Rightarrow> Str dir),
            opt_format = Some format, opt_base64 = Some True, opt_dpi = Some dpi\<rparr>)
      = Inl e3 \<longrightarrow>
      fst (extract_pdf_all env w pdfPath outputDir format dpi) =
        \<lparr>content = [TextContent (ascii ''Error: '' @ message e3)], isError = True\<rparr>)"
  by (auto simp: extract_pdf_text_def extract_pdf_images_def extract_pdf_all_def error_reply_def
        split: prod.splits sum.splits)

theorem tool_errors_are_caught_witness:
  "fst (extractText sample_env sample_world missing_path) = Inl (file_not_found missing_path) \<and>
   fst (extract_pdf_text sample_env sample_world missing_path) =
     \<lparr>content = [TextContent (ascii ''Error: PDF file not found: /docs/missing.pdf'')],
      isError = True\<rparr> \<and>
   fst (extract_pdf_images sample_env sample_world missing_path None (ascii ''png'') False
          (Num 150)) =
     \<lparr>content = [TextContent (ascii ''Error: PDF file not found: /docs/missing.pdf'')],
      isError = True\<rparr> \<and>
   fst (extract_pdf_all sample_env sample_world missing_path None (ascii ''png'') (Num 150)) =
     \<lparr>content = [TextContent (ascii ''Error: PDF file not found: /docs/missing.pdf'')],
      isError = True\<rparr>"
proof -
  have missing:
    "\<not> fs_existsSync sample_env (fsys sample_world) (path_resolve sample_env missing_path)"
    by (simp add: sample_env_def sample_world_def sample_fs_def missing_path_def
          sample_path_def ascii_def)
  have abs: "path_resolve sample_env missing_path = missing_path"
    by (simp add: sample_env_def)
  have msg: "ascii ''Error: '' @ message (file_not_found missing_path) =
             ascii ''Error: PDF file not found: /docs/missing.pdf''"
    by (simp add: file_not_found_def missing_path_def ascii_def)
  from tool_errors_are_caught
         [of sample_env sample_world missing_path "file_not_found missing_path" None
             "ascii ''png''" False "Num 150" "file_not_found missing_path"
             "file_not_found missing_path"]
    extractText_missing [OF missing] extractImages_missing [OF missing]
    extractAll_missing [OF missing]
  show ?thesis
    unfolding abs msg by simp
qed

text \<open>
  The default output directory at work: a call of \<open>extractImages\<close> without \<open>outputDir\<close>, as
  the MCP tool makes it, creates the directory of the PDF and writes every file into it.
\<close>

lemma mcp_images_default_directory:
  "writes (snd (extract_pdf_images sample_env sample_world sample_path None (ascii ''png'')
                  False (Num 150))) =
     [MkdirSync (Str (ascii ''/docs'')),
      WriteFileSync (ascii ''/docs/report_page_1.png'') [0x89, 0x50, 7],
      WriteFileSync (ascii ''/docs/report_page_1_img_1.png'') [0x89, 0x50, 1],
      WriteFileSync (ascii ''/docs/report_page_1_img_2.png'') [0x89, 0x50, 2],
      WriteFileSync (ascii ''/docs/report_page_2.png'') [0x89, 0x50, 8]]"
  by (simp add: extract_pdf_images_def extractImages_def image_loop.simps image_page_def
        extractEmbeddedImages_def onImageBlock_def deliver_def encode_def mimeType_of_def
        ext_of_def page_fileName_def embedded_fileName_def bbox_of_def Let_def writes_def
        emit_def sample_defs ascii_def split: prod.splits)

text \<open>
  An \<open>outputDir\<close> that is \<open>null\<close> is not replaced by the default: outside inline mode
  \<open>mkdirSync\<close> throws on it, before any page is rendered, and nothing is written.
\<close>

lemma extractImages_null_outputDir:
  assumes "valid_pdf env (fsys w) pdfPath dataBuffer doc"
    and "opt_outputDir options = Null" and "\<not> inline_mode options"
  shows "extractImages env w pdfPath options =
           (Inl (mkdir_invalid_path Null),
            w\<lparr>trace := trace w @
                 [ExistsSync (path_resolve env pdfPath), ReadFileSync (path_resolve env pdfPath),
                  PdfAdapter OpenDocument, PdfAdapter CountPages, MkdirSync Null]\<rparr>)"
  unfolding extractImages_valid [OF assms(1)] using assms(2,3)
  by (simp add: output_directory_def emit_def)

text \<open>
  C5. Without an output directory and outside inline mode, the images should go to the
  directory of the PDF, also from the command line. They do not: on the command line
  \<open>images /docs/report.pdf\<close>, without \<open>--output-dir\<close> and without \<open>--base64\<close>, for a PDF
  that exists and opens, \<open>parseArgs\<close> leaves \<open>outputDir\<close> at \<open>null\<close>, so the run ends with
  the error of \<open>mkdirSync\<close> and exit code 1, and no image has been written.
\<close>

theorem cli_images_default_directory_fails:
  "pa_outputDir (parseArgs sample_env [ascii ''images'', sample_path]) = Null \<and>
   main sample_env False [ascii ''images'', sample_path] sample_world =
     (\<lparr>console = [ErrorLine (newline @ [0x274C] @ ascii '' Error: '' @
                                message (mkdir_invalid_path Null))],
       exitCode = Some 1\<rparr>,
      \<lparr>fsys = sample_fs,
       trace = [ExistsSync sample_path, ReadFileSync sample_path, PdfAdapter OpenDocument,
                PdfAdapter CountPages, MkdirSync Null]\<rparr>)"
proof -
  have parsed: "parseArgs sample_env [ascii ''images'', sample_path] =
                  initial_args\<lparr>pa_command := Some (ascii ''images''),
                               pa_pdfPath := Some sample_path\<rparr>"
    by (simp add: parseArgs_def parseArgs_step_def initial_args_def startsWith_dash_def
          sample_path_def ascii_def)
  have run: "extractImages sample_env sample_world sample_path
               (cli_options (initial_args\<lparr>pa_command := Some (ascii ''images''),
                                          pa_pdfPath := Some sample_path\<rparr>)) =
             (Inl (mkdir_invalid_path Null),
              \<lparr>fsys = sample_fs,
               trace = [ExistsSync sample_path, ReadFileSync sample_path,
                        PdfAdapter OpenDocument, PdfAdapter CountPages, MkdirSync Null]\<rparr>)"
    using extractImages_null_outputDir [OF sample_valid,
            of "cli_options (initial_args\<lparr>pa_command := Some (ascii ''images''),
                                            pa_pdfPath := Some sample_path\<rparr>)"]
    by (simp add: cli_options_def initial_args_def inline_mode_def sample_world_def
          sample_env_def)
  have ne: "sample_path \<noteq> []"
    by (simp add: sample_path_def ascii_def)
  have fields: "pa_pdfPath (initial_args\<lparr>pa_command := Some (ascii ''images''),
                                         pa_pdfPath := Some sample_path\<rparr>) = Some sample_path"
    "pa_command (initial_args\<lparr>pa_command := Some (ascii ''images''),
                              pa_pdfPath := Some sample_path\<rparr>) = Some (ascii ''images'')"
    "pa_outputDir (initial_args\<lparr>pa_command := Some (ascii ''images''),
                                pa_pdfPath := Some sample_path\<rparr>) = Null"
    by (simp_all add: initial_args_def)
  have cmd: "command_images sample_env False
               (initial_args\<lparr>pa_command := Some (ascii ''images''),
                             pa_pdfPath := Some sample_path\<rparr>) sample_world =
             (cli_failure False (mkdir_invalid_path Null),
              \<lparr>fsys = sample_fs,
               trace = [ExistsSync sample_path, ReadFileSync sample_path,
                        PdfAdapter OpenDocument, PdfAdapter CountPages, MkdirSync Null]\<rparr>)"
    using ne by (simp add: command_images_def fields run)
  have sel: "length [ascii ''images'', sample_path] \<noteq> 0"
    "ascii ''--help'' \<notin> set [ascii ''images'', sample_path]"
    "ascii ''-h'' \<notin> set [ascii ''images'', sample_path]"
    "ascii ''images'' \<noteq> ascii ''text''"
    by (simp_all add: sample_path_def ascii_def)
  have "main sample_env False [ascii ''images'', sample_path] sample_world =
          command_images sample_env False
            (initial_args\<lparr>pa_command := Some (ascii ''images''),
                          pa_pdfPath := Some sample_path\<rparr>) sample_world"
    unfolding main_def parsed Let_def fields using sel by simp
  then show ?thesis
    unfolding parsed fields cmd by (simp add: cli_failure_def)
qed

section \<open>Claims about both functions\<close>

text \<open>
  C3. When the resolved path does not exist, \<open>extractText\<close> and \<open>extractImages\<close> throw the
  error "PDF file not found", and the existence check is the only call they have made:
  the file is not read and neither adapter is called.
\<close>

theorem missing_file_fails_first:
  assumes "\<not> fs_existsSync env (fsys w) (path_resolve env pdfPath)"
  shows "extractText env w pdfPath =
           (Inl (file_not_found (path_resolve env pdfPath)),
            w\<lparr>trace := trace w @ [ExistsSync (path_resolve env pdfPath)]\<rparr>) \<and>
         extractImages env w pdfPath options =
           (Inl (file_not_found (path_resolve env pdfPath)),
            w\<lparr>trace := trace w @ [ExistsSync (path_resolve env pdfPath)]\<rparr>)"
  using assms
  by (simp add: extractText_def extractText_head_def extractImages_def Let_def emit_def)

lemma sample_missing:
  "\<not> fs_existsSync sample_env (fsys sample_world) (path_resolve sample_env missing_path)"
  by (simp add: sample_env_def sample_world_def sample_fs_def missing_path_def sample_path_def
        ascii_def)

theorem missing_file_fails_first_witness:
  "\<not> fs_existsSync sample_env (fsys sample_world) (path_resolve sample_env missing_path) \<and>
   extractText sample_env sample_world missing_path =
     (Inl (file_not_found missing_path),
      \<lparr>fsys = sample_fs, trace = [ExistsSync missing_path]\<rparr>) \<and>
   extractImages sample_env sample_world missing_path no_options =
     (Inl (file_not_found missing_path),
      \<lparr>fsys = sample_fs, trace = [ExistsSync missing_path]\<rparr>)"
  using missing_file_fails_first [OF sample_missing, of no_options] sample_missing
  by (simp add: sample_env_def sample_world_def)

end
